theory Spec2Isabelle
  imports Main
begin

section \<open>Python strings\<close>

text \<open>
  A Python \<^verbatim>\<open>str\<close> is modelled as a \<^typ>\<open>string\<close>: one \<^typ>\<open>char\<close> per code
  point, read as the code points below 256 (Latin-1). On that range the character
  classes below are the ones CPython uses for \<^verbatim>\<open>str.strip\<close>, \<^verbatim>\<open>str.split\<close>,
  \<^verbatim>\<open>str.lower\<close> and for \<^verbatim>\<open>\s\<close>, \<^verbatim>\<open>\d\<close> in \<^verbatim>\<open>re\<close>.
\<close>

text \<open>\<^verbatim>\<open>str.isspace\<close> of one character: TAB, LF, VT, FF, CR, FS, GS, RS, US, space,
  NEL and the no-break space.\<close>

definition isspace :: "char \<Rightarrow> bool" where
  "isspace c = (c \<in> set [CHR 0x09, CHR 0x0A, CHR 0x0B, CHR 0x0C, CHR 0x0D,
                          CHR 0x1C, CHR 0x1D, CHR 0x1E, CHR 0x1F, CHR 0x20,
                          CHR 0x85, CHR 0xA0])"

text \<open>\<^verbatim>\<open>s.strip()\<close>: leading and trailing whitespace removed.\<close>

definition strip :: "string \<Rightarrow> string" where
  "strip s = rev (dropWhile isspace (rev (dropWhile isspace s)))"

text \<open>\<^verbatim>\<open>s.startswith(p)\<close> and \<^verbatim>\<open>s.endswith(p)\<close>.\<close>

definition startswith :: "string \<Rightarrow> string \<Rightarrow> bool" where
  "startswith s p = (take (length p) s = p)"

definition endswith :: "string \<Rightarrow> string \<Rightarrow> bool" where
  "endswith s p = (length p \<le> length s \<and> drop (length s - length p) s = p)"

text \<open>\<^verbatim>\<open>s.replace(old, new)\<close> for a one-character \<^verbatim>\<open>old\<close>: every occurrence is
  replaced.\<close>

definition replace_char :: "char \<Rightarrow> string \<Rightarrow> string \<Rightarrow> string" where
  "replace_char old new s = concat (map (\<lambda>c. if c = old then new else [c]) s)"

text \<open>\<^verbatim>\<open>sep.join(parts)\<close>.\<close>

fun join :: "string \<Rightarrow> string list \<Rightarrow> string" where
  "join sep [] = []"
| "join sep [x] = x"
| "join sep (x # y # ys) = x @ sep @ join sep (y # ys)"

section \<open>Identifier quoting (dialect.py)\<close>

definition strip_any_quotes :: "string \<Rightarrow> string" where
  "strip_any_quotes name =
     (if name = [] then name
      else let s = strip name in
        if (startswith s [CHR 0x22] \<and> endswith s [CHR 0x22]) \<or>
           (startswith s [CHR 0x60] \<and> endswith s [CHR 0x60]) \<or>
           (startswith s [CHR 0x27] \<and> endswith s [CHR 0x27])
        then butlast (tl s)
        else s)"

definition quote_ident :: "string \<Rightarrow> string" where
  "quote_ident name =
     (let raw = strip_any_quotes name
      in [CHR 0x22] @ replace_char (CHR 0x22) [CHR 0x22, CHR 0x22] raw @ [CHR 0x22])"

text \<open>\<^verbatim>\<open>s.split(".", 1)\<close> on a string that contains a dot: the text before the first
  dot and the text after it.\<close>

definition split_first_dot :: "string \<Rightarrow> string \<times> string" where
  "split_first_dot s =
     (takeWhile (\<lambda>c. c \<noteq> CHR ''.'') s, tl (dropWhile (\<lambda>c. c \<noteq> CHR ''.'') s))"

definition render_table_name :: "string \<Rightarrow> string" where
  "render_table_name name =
     (let s = strip name in
      if CHR ''.'' \<in> set s
      then (case split_first_dot s of (db, tbl) \<Rightarrow> quote_ident db @ ''.'' @ quote_ident tbl)
      else quote_ident s)"


section \<open>Decimal text of integers\<close>

text \<open>\<^verbatim>\<open>str(n)\<close> and the \<^verbatim>\<open>{n}\<close> of an f-string, for a non-negative integer and
  for any integer.\<close>

definition digit_char :: "nat \<Rightarrow> char" where
  "digit_char d = ''0123456789'' ! d"

fun str_nat :: "nat \<Rightarrow> string" where
  "str_nat n = (if n < 10 then [digit_char n] else str_nat (n div 10) @ [digit_char (n mod 10)])"

declare str_nat.simps [simp del]

definition str_int :: "int \<Rightarrow> string" where
  "str_int i = (if i < 0 then ''-'' @ str_nat (nat (- i)) else str_nat (nat i))"

text \<open>\<^verbatim>\<open>\d\<close> on the modelled range, and \<^verbatim>\<open>int(s)\<close> on a string of digits.\<close>

definition isdigit :: "char \<Rightarrow> bool" where
  "isdigit c = (c \<in> set ''0123456789'')"

definition digit_val :: "char \<Rightarrow> nat" where
  "digit_val c = of_char c - 48"

definition int_of_digits :: "string \<Rightarrow> nat" where
  "int_of_digits s = foldl (\<lambda>a c. 10 * a + digit_val c) 0 s"

section \<open>Column types (types.py) and their rendering (ddl.py)\<close>

text \<open>
  Modelled from the spec: the module \<^verbatim>\<open>types.py\<close> that declares \<^verbatim>\<open>CHType\<close> and its
  subclasses is not among the sources. The Column Type is the tagged variant of the
  spec's data model: sixteen unparameterised leaves, three leaves with numeric
  parameters (the \<^verbatim>\<open>P\<close>, \<^verbatim>\<open>S\<close>, \<^verbatim>\<open>N\<close> of the type declaration grammar, natural
  numbers) and three wrappers around one inner type. Two values are equal when they
  have the same structure. The field names \<^verbatim>\<open>precision\<close>, \<^verbatim>\<open>scale\<close>, \<^verbatim>\<open>n\<close> and
  \<^verbatim>\<open>inner\<close> are the ones \<^verbatim>\<open>_render_type\<close> reads.
\<close>

datatype chtype =
    Int8 | Int16 | Int32 | Int64 | UInt8 | UInt16 | UInt32 | UInt64
  | Float32 | Float64 | String | UUID | Bool | Date | Date32 | DateTime
  | Decimal nat nat
  | FixedString nat
  | DateTime64 nat
  | Nullable chtype
  | Array chtype
  | LowCardinality chtype

text \<open>\<^verbatim>\<open>_render_type\<close> on a \<^verbatim>\<open>CHType\<close> value: the chain of \<^verbatim>\<open>isinstance\<close> tests.\<close>

fun render_type :: "chtype \<Rightarrow> string" where
  "render_type Int8 = ''Int8''"
| "render_type Int16 = ''Int16''"
| "render_type Int32 = ''Int32''"
| "render_type Int64 = ''Int64''"
| "render_type UInt8 = ''UInt8''"
| "render_type UInt16 = ''UInt16''"
| "render_type UInt32 = ''UInt32''"
| "render_type UInt64 = ''UInt64''"
| "render_type Float32 = ''Float32''"
| "render_type Float64 = ''Float64''"
| "render_type String = ''String''"
| "render_type UUID = ''UUID''"
| "render_type Bool = ''Bool''"
| "render_type Date = ''Date''"
| "render_type Date32 = ''Date32''"
| "render_type DateTime = ''DateTime''"
| "render_type (Decimal p sc) = ''Decimal('' @ str_nat p @ '','' @ str_nat sc @ '')''"
| "render_type (FixedString n) = ''FixedString('' @ str_nat n @ '')''"
| "render_type (DateTime64 p) = ''DateTime64('' @ str_nat p @ '')''"
| "render_type (Nullable inner) = ''Nullable('' @ render_type inner @ '')''"
| "render_type (Array inner) = ''Array('' @ render_type inner @ '')''"
| "render_type (LowCardinality inner) = ''LowCardinality('' @ render_type inner @ '')''"

text \<open>The argument of \<^verbatim>\<open>_render_type\<close> is \<^verbatim>\<open>Union[CHType, str]\<close>: a string is returned
  as it is.\<close>

datatype coltype = TypeText string | TypeOf chtype

fun render_coltype :: "coltype \<Rightarrow> string" where
  "render_coltype (TypeText t) = t"
| "render_coltype (TypeOf t) = render_type t"

section \<open>The type parser (engine.py)\<close>

text \<open>The exceptions the modelled code raises; a function that can raise returns
  \<open>py_error + 'a\<close>, with \<open>Inl\<close> for the exception.\<close>

datatype py_error = IndexError | KeyError | StopIteration | AssertionError

text \<open>\<^verbatim>\<open>str.lower\<close>: the letters A to Z and the upper-case letters of Latin-1 move to
  their lower-case forms.\<close>

definition upper_chars :: "string" where
  "upper_chars = ''ABCDEFGHIJKLMNOPQRSTUVWXYZ'' @
     [CHR 0xC0, CHR 0xC1, CHR 0xC2, CHR 0xC3, CHR 0xC4, CHR 0xC5, CHR 0xC6, CHR 0xC7, CHR 0xC8, CHR 0xC9, CHR 0xCA, CHR 0xCB, CHR 0xCC, CHR 0xCD, CHR 0xCE, CHR 0xCF, CHR 0xD0, CHR 0xD1, CHR 0xD2, CHR 0xD3, CHR 0xD4, CHR 0xD5, CHR 0xD6, CHR 0xD8, CHR 0xD9, CHR 0xDA, CHR 0xDB, CHR 0xDC, CHR 0xDD, CHR 0xDE]"

definition lower_chars :: "string" where
  "lower_chars = ''abcdefghijklmnopqrstuvwxyz'' @
     [CHR 0xE0, CHR 0xE1, CHR 0xE2, CHR 0xE3, CHR 0xE4, CHR 0xE5, CHR 0xE6, CHR 0xE7, CHR 0xE8, CHR 0xE9, CHR 0xEA, CHR 0xEB, CHR 0xEC, CHR 0xED, CHR 0xEE, CHR 0xEF, CHR 0xF0, CHR 0xF1, CHR 0xF2, CHR 0xF3, CHR 0xF4, CHR 0xF5, CHR 0xF6, CHR 0xF8, CHR 0xF9, CHR 0xFA, CHR 0xFB, CHR 0xFC, CHR 0xFD, CHR 0xFE]"

definition lower_char :: "char \<Rightarrow> char" where
  "lower_char c = (case map_of (zip upper_chars lower_chars) c of Some d \<Rightarrow> d | None \<Rightarrow> c)"

definition lower :: "string \<Rightarrow> string" where
  "lower s = map lower_char s"

text \<open>\<^verbatim>\<open>s.split()\<close>: the maximal runs of characters that are not whitespace.\<close>

fun split_acc :: "string \<Rightarrow> string \<Rightarrow> string list" where
  "split_acc cur [] = (if cur = [] then [] else [cur])"
| "split_acc cur (c # cs) =
     (if isspace c
      then (if cur = [] then split_acc [] cs else cur # split_acc [] cs)
      else split_acc (cur @ [c]) cs)"

definition split :: "string \<Rightarrow> string list" where
  "split s = split_acc [] s"

text \<open>
  The four regular expressions, each matched with \<^verbatim>\<open>re.match\<close> under \<^verbatim>\<open>re.I\<close>. A
  matcher returns the groups of the match, or \<open>None\<close>. \<^verbatim>\<open>match_ci\<close> matches a
  lower-case keyword without regard to case and returns the rest of the string. In
  each expression, what follows a \<^verbatim>\<open>\s*\<close> or a \<^verbatim>\<open>\d+\<close> cannot start with a character
  of that class, so the greedy match is the only one; a final \<^verbatim>\<open>\s*$\<close> matches when
  only whitespace is left.
\<close>

fun match_ci :: "string \<Rightarrow> string \<Rightarrow> string option" where
  "match_ci [] s = Some s"
| "match_ci (p # ps) [] = None"
| "match_ci (p # ps) (c # cs) = (if lower_char c = p then match_ci ps cs else None)"

definition skip_ws :: "string \<Rightarrow> string" where
  "skip_ws s = dropWhile isspace s"

definition expect :: "char \<Rightarrow> string \<Rightarrow> string option" where
  "expect c s = (case s of [] \<Rightarrow> None | x # xs \<Rightarrow> if x = c then Some xs else None)"

definition digits1 :: "string \<Rightarrow> (string \<times> string) option" where
  "digits1 s = (if takeWhile isdigit s = [] then None
                else Some (takeWhile isdigit s, dropWhile isdigit s))"

text \<open>\<^verbatim>\<open>^decimal\s*\(\s*(\d+)\s*,\s*(\d+)\s*\)\s*$\<close>\<close>

definition RE_DECIMAL :: "string \<Rightarrow> (string \<times> string) option" where
  "RE_DECIMAL s =
     Option.bind (match_ci ''decimal'' s) (\<lambda>r0.
     Option.bind (expect (CHR ''('') (skip_ws r0)) (\<lambda>r1.
     Option.bind (digits1 (skip_ws r1)) (\<lambda>(g1, r2).
     Option.bind (expect (CHR '','') (skip_ws r2)) (\<lambda>r3.
     Option.bind (digits1 (skip_ws r3)) (\<lambda>(g2, r4).
     Option.bind (expect (CHR '')'') (skip_ws r4)) (\<lambda>r5.
     if list_all isspace r5 then Some (g1, g2) else None))))))"

text \<open>\<^verbatim>\<open>^fixedstring\s*\(\s*(\d+)\s*\)\s*$\<close> and \<^verbatim>\<open>^datetime64\s*\(\s*(\d+)\s*\)\s*$\<close>:
  the same expression but for the keyword.\<close>

definition one_arg :: "string \<Rightarrow> string \<Rightarrow> string option" where
  "one_arg kw s =
     Option.bind (match_ci kw s) (\<lambda>r0.
     Option.bind (expect (CHR ''('') (skip_ws r0)) (\<lambda>r1.
     Option.bind (digits1 (skip_ws r1)) (\<lambda>(g1, r2).
     Option.bind (expect (CHR '')'') (skip_ws r2)) (\<lambda>r3.
     if list_all isspace r3 then Some g1 else None))))"

definition RE_FIXED :: "string \<Rightarrow> string option" where
  "RE_FIXED s = one_arg ''fixedstring'' s"

definition RE_DT64 :: "string \<Rightarrow> string option" where
  "RE_DT64 s = one_arg ''datetime64'' s"

text \<open>
  \<^verbatim>\<open>^(nullable|array|lowcardinality)\s*\((.*)\)$\<close>. The three keywords start with
  different letters, so at most one alternative matches. \<^verbatim>\<open>.\<close> is any character but
  the newline, and \<^verbatim>\<open>$\<close> stands at the end of the string or before a newline that
  ends it: group 2 is all the text between the opening parenthesis and the closing
  one that ends the string.
\<close>

fun match_alt :: "string list \<Rightarrow> string \<Rightarrow> (string \<times> string) option" where
  "match_alt [] s = None"
| "match_alt (kw # kws) s =
     (case match_ci kw s of
        Some r \<Rightarrow> Some (take (length kw) s, r)
      | None \<Rightarrow> match_alt kws s)"

definition dot_star_close :: "string \<Rightarrow> string option" where
  "dot_star_close r =
     (if endswith r '')'' \<and> CHR 0x0A \<notin> set (butlast r) then Some (butlast r)
      else if endswith r [CHR '')'', CHR 0x0A] \<and> CHR 0x0A \<notin> set (butlast (butlast r))
           then Some (butlast (butlast r))
      else None)"

definition RE_WRAP1 :: "string \<Rightarrow> (string \<times> string) option" where
  "RE_WRAP1 s =
     Option.bind (match_alt [''nullable'', ''array'', ''lowcardinality''] s) (\<lambda>(g1, r0).
     Option.bind (expect (CHR ''('') (skip_ws r0)) (\<lambda>r1.
     Option.bind (dot_star_close r1) (\<lambda>g2. Some (g1, g2))))"

definition SIMPLE_MAP :: "(string \<times> chtype) list" where
  "SIMPLE_MAP =
     [(''int8'', Int8), (''int16'', Int16), (''int32'', Int32), (''int64'', Int64),
      (''uint8'', UInt8), (''uint16'', UInt16), (''uint32'', UInt32), (''uint64'', UInt64),
      (''float32'', Float32), (''float64'', Float64),
      (''string'', String),
      (''uuid'', UUID),
      (''bool'', Bool),
      (''boolean'', Bool),
      (''date'', Date),
      (''date32'', Date32),
      (''datetime'', DateTime)]"

text \<open>\<^verbatim>\<open>_parse_ch_type\<close> from its second \<^verbatim>\<open>match\<close> on: the parameterised leaves, then
  the first word of the lower-cased text looked up in \<^verbatim>\<open>_SIMPLE_MAP\<close>.
  \<^verbatim>\<open>key.split()[0]\<close> raises \<^verbatim>\<open>IndexError\<close> when there is no word.\<close>

definition parse_leaf :: "string \<Rightarrow> py_error + chtype" where
  "parse_leaf s =
     (case RE_DECIMAL s of
        Some (g1, g2) \<Rightarrow> Inr (Decimal (int_of_digits g1) (int_of_digits g2))
      | None \<Rightarrow>
     (case RE_FIXED s of
        Some g1 \<Rightarrow> Inr (FixedString (int_of_digits g1))
      | None \<Rightarrow>
     (case RE_DT64 s of
        Some g1 \<Rightarrow> Inr (DateTime64 (int_of_digits g1))
      | None \<Rightarrow>
     (case split (lower s) of
        [] \<Rightarrow> Inl IndexError
      | key # _ \<Rightarrow>
     (case map_of SIMPLE_MAP key of
        Some t \<Rightarrow> Inr t
      | None \<Rightarrow> Inr String)))))"

text \<open>The recursive call is on a shorter string.\<close>

lemma length_strip: "length (strip s) \<le> length s"
proof -
  have "length (strip s) \<le> length (dropWhile isspace s)"
    unfolding strip_def using length_dropWhile_le[of isspace "rev (dropWhile isspace s)"] by simp
  also have "\<dots> \<le> length s" by (rule length_dropWhile_le)
  finally show ?thesis .
qed

lemma match_ci_length: "match_ci kw s = Some r \<Longrightarrow> length r \<le> length s"
  by (induction kw s rule: match_ci.induct) (auto split: if_splits)

lemma match_alt_length: "match_alt kws s = Some (g, r) \<Longrightarrow> length r \<le> length s"
  by (induction kws) (auto split: option.splits dest: match_ci_length)

lemma expect_length: "expect c s = Some r \<Longrightarrow> length r < length s"
  by (auto simp: expect_def split: list.splits if_splits)

lemma skip_ws_length: "length (skip_ws s) \<le> length s"
  by (simp add: skip_ws_def length_dropWhile_le)

lemma dot_star_close_length: "dot_star_close r = Some g \<Longrightarrow> length g \<le> length r"
  by (auto simp: dot_star_close_def split: if_splits)

lemma RE_WRAP1_length: "RE_WRAP1 s = Some (g1, g2) \<Longrightarrow> length g2 < length s"
proof -
  assume "RE_WRAP1 s = Some (g1, g2)"
  then obtain r0 r1 where a: "match_alt [''nullable'', ''array'', ''lowcardinality''] s = Some (g1, r0)"
    and b: "expect (CHR ''('') (skip_ws r0) = Some r1" and c: "dot_star_close r1 = Some g2"
    by (auto simp: RE_WRAP1_def split: Option.bind_splits)
  have "length g2 \<le> length r1" using c by (rule dot_star_close_length)
  also have "\<dots> < length (skip_ws r0)" using b by (rule expect_length)
  also have "\<dots> \<le> length r0" by (rule skip_ws_length)
  also have "\<dots> \<le> length s" using a by (rule match_alt_length)
  finally show ?thesis .
qed

text \<open>\<^verbatim>\<open>_parse_ch_type\<close>. The inner type is parsed before the keyword is looked at, so
  an exception of the inner call is the result.\<close>

function parse_ch_type :: "string \<Rightarrow> py_error + chtype" where
  "parse_ch_type t =
     (let s = strip t in
      case RE_WRAP1 s of
        Some (g1, g2) \<Rightarrow>
          (case parse_ch_type (strip g2) of
             Inl e \<Rightarrow> Inl e
           | Inr inner \<Rightarrow>
               let wrap = lower g1 in
               if wrap = ''nullable'' then Inr (Nullable inner)
               else if wrap = ''array'' then Inr (Array inner)
               else if wrap = ''lowcardinality'' then Inr (LowCardinality inner)
               else parse_leaf s)
      | None \<Rightarrow> parse_leaf s)"
  by pat_completeness auto
termination
proof (relation "measure length")
  show "wf (measure length)" by simp
next
  fix t s x g1 g2
  assume "s = strip t" "RE_WRAP1 s = Some x" "(g1, g2) = x"
  then have "length g2 < length (strip t)" using RE_WRAP1_length by metis
  moreover have "length (strip g2) \<le> length g2" by (rule length_strip)
  moreover have "length (strip t) \<le> length t" by (rule length_strip)
  ultimately show "(strip g2, t) \<in> measure length" by simp
qed

declare parse_ch_type.simps [simp del]

section \<open>Schema objects (model.py)\<close>

text \<open>A \<^verbatim>\<open>Column\<close> after \<^verbatim>\<open>ModelMeta\<close> has filled in its name.\<close>

record column =
  ch_type :: coltype
  primary_key :: bool
  col_name :: string

text \<open>One entry of \<^verbatim>\<open>__indexes__\<close> or of the \<^verbatim>\<open>indexes\<close> argument: a dictionary
  from strings to strings.\<close>

type_synonym index_dict = "(string \<times> string) list"

text \<open>A value of the \<^verbatim>\<open>settings\<close> dictionary. A float and any other object carry the
  text that \<^verbatim>\<open>str\<close> gives them.\<close>

datatype setting = SBool bool | SInt int | SFloat string | SOther string

text \<open>
  A model class built by \<^verbatim>\<open>ModelMeta\<close>: \<^verbatim>\<open>__table__\<close> and \<^verbatim>\<open>__columns__\<close> are always
  set by the metaclass (so the defaults of the \<^verbatim>\<open>getattr\<close> calls that read them are
  never taken); the DDL directives are optional class attributes, \<open>None\<close> when the
  class does not declare them. \<^verbatim>\<open>__columns__\<close> is a dictionary in insertion order.
\<close>

record model =
  m_table :: string
  m_columns :: "(string \<times> column) list"
  m_engine :: "string option"
  m_order_by :: "string list option"
  m_partition_by :: "string option"
  m_primary_key :: "string list option"
  m_ttl :: "string option"
  m_settings :: "(string \<times> setting) list option"
  m_indexes :: "index_dict list option"
  m_comment :: "string option"

section \<open>Expression tree (expressions.py) and SELECT compiler (compiler.py)\<close>

text \<open>
  The expression classes, over the type \<open>'v\<close> of literal values. \<^verbatim>\<open>ColumnExpr\<close> also
  stores its model class, which \<^verbatim>\<open>to_sql\<close> never reads. \<open>Raw\<close> is the class \<^verbatim>\<open>_Raw\<close>
  that \<^verbatim>\<open>Query.filter\<close> wraps a string in.
\<close>

datatype 'v expr =
    ColumnExpr string
  | ValueExpr 'v
  | BinaryExpr "'v expr" string "'v expr"
  | LogicalExpr "'v expr" string "'v expr"
  | Raw string

text \<open>The compiler's state is its counter \<^verbatim>\<open>_i\<close>; \<^verbatim>\<open>add_param\<close> returns the name and the
  new counter.\<close>

definition add_param :: "nat \<Rightarrow> string \<times> nat" where
  "add_param i = (''p'' @ str_nat i, i + 1)"

fun to_sql :: "'v expr \<Rightarrow> nat \<Rightarrow> (string \<times> (string \<rightharpoonup> 'v)) \<times> nat" where
  "to_sql (ColumnExpr name) i = ((quote_ident name, Map.empty), i)"
| "to_sql (ValueExpr v) i =
     (case add_param i of (pname, i') \<Rightarrow>
        ((''%('' @ pname @ '')s'', [pname \<mapsto> v]), i'))"
| "to_sql (BinaryExpr left op right) i =
     (case to_sql left i of ((ls, lp), i1) \<Rightarrow>
      case to_sql right i1 of ((rs, rp), i2) \<Rightarrow>
        ((''('' @ ls @ '' '' @ op @ '' '' @ rs @ '')'', lp ++ rp), i2))"
| "to_sql (LogicalExpr left op right) i =
     (case to_sql left i of ((ls, lp), i1) \<Rightarrow>
      case to_sql right i1 of ((rs, rp), i2) \<Rightarrow>
        ((''('' @ ls @ '' '' @ op @ '' '' @ rs @ '')'', lp ++ rp), i2))"
| "to_sql (Raw sql) i = ((sql, Map.empty), i)"

text \<open>The values a parameter map holds: the literals of the tree, and the integers of
  \<^verbatim>\<open>LIMIT\<close> and \<^verbatim>\<open>OFFSET\<close>.\<close>

datatype pyval = PyNone | PyBool bool | PyInt int | PyStr string | PyList "pyval list"

text \<open>The clauses of \<^verbatim>\<open>Compiler.select\<close>, each taking the statement built so far.\<close>

definition select_head :: "model \<Rightarrow> string" where
  "select_head m =
     (let cols = join '', '' (map (\<lambda>c. quote_ident (col_name c)) (map snd (m_columns m)));
          cols = (if cols = [] then ''*'' else cols);
          tbl = render_table_name (m_table m)
      in ''SELECT '' @ cols @ '' FROM '' @ tbl)"

definition order_by_clause :: "(string \<times> string) list option \<Rightarrow> string" where
  "order_by_clause order_by =
     (case order_by of
        None \<Rightarrow> []
      | Some obs \<Rightarrow>
          if obs = [] then []
          else '' ORDER BY '' @ join '', '' (map (\<lambda>(col, direction). quote_ident col @ '' '' @ direction) obs))"

definition select ::
  "model \<Rightarrow> pyval expr option \<Rightarrow> (string \<times> string) list option \<Rightarrow> int option \<Rightarrow> int option
     \<Rightarrow> nat \<Rightarrow> (string \<times> (string \<rightharpoonup> pyval)) \<times> nat" where
  "select m where order_by limit offset i0 =
     (let sql = select_head m;
          params = Map.empty;
          (sql, params, i1) =
            (case where of
               None \<Rightarrow> (sql, params, i0)
             | Some w \<Rightarrow>
                 (case to_sql w i0 of ((ws, wp), i) \<Rightarrow> (sql @ '' WHERE '' @ ws, params ++ wp, i)));
          sql = sql @ order_by_clause order_by;
          (sql, params, i2) =
            (case limit of
               None \<Rightarrow> (sql, params, i1)
             | Some n \<Rightarrow>
                 (case add_param i1 of (pname, i) \<Rightarrow>
                    (sql @ '' LIMIT %('' @ pname @ '')s'', params(pname \<mapsto> PyInt n), i)));
          (sql, params, i3) =
            (case offset of
               None \<Rightarrow> (sql, params, i2)
             | Some n \<Rightarrow>
                 (case add_param i2 of (pname, i) \<Rightarrow>
                    (sql @ '' OFFSET %('' @ pname @ '')s'', params(pname \<mapsto> PyInt n), i)))
      in ((sql, params), i3))"

section \<open>Query (query.py)\<close>

text \<open>The state of a \<^verbatim>\<open>Query\<close>. Its engine only receives the compiled statement.\<close>

record query =
  q_model :: model
  q_where :: "pyval expr option"
  q_order_by :: "(string \<times> string) list option"
  q_limit :: "int option"
  q_offset :: "int option"

definition Query :: "model \<Rightarrow> query" where
  "Query m = \<lparr>q_model = m, q_where = None, q_order_by = None, q_limit = None, q_offset = None\<rparr>"

text \<open>The argument of \<^verbatim>\<open>Query.filter\<close> is \<^verbatim>\<open>Union[Expr, str]\<close>.\<close>

datatype filter_arg = ExprArg "pyval expr" | StrArg string

definition Query_filter :: "query \<Rightarrow> filter_arg \<Rightarrow> query" where
  "Query_filter q arg =
     (let expr = (case arg of StrArg s \<Rightarrow> Raw s | ExprArg e \<Rightarrow> e)
      in case q_where q of
           None \<Rightarrow> q\<lparr>q_where := Some expr\<rparr>
         | Some w \<Rightarrow> q\<lparr>q_where := Some (LogicalExpr w ''AND'' expr)\<rparr>)"

definition Query_order_by :: "query \<Rightarrow> (string \<times> string) list \<Rightarrow> query" where
  "Query_order_by q cols = q\<lparr>q_order_by := Some cols\<rparr>"

definition Query_limit :: "query \<Rightarrow> int \<Rightarrow> query" where
  "Query_limit q n = q\<lparr>q_limit := Some n\<rparr>"

definition Query_offset :: "query \<Rightarrow> int \<Rightarrow> query" where
  "Query_offset q n = q\<lparr>q_offset := Some n\<rparr>"

text \<open>\<^verbatim>\<open>Query.all\<close> and \<^verbatim>\<open>Query.count\<close>: the statement and the parameter map handed to
  the engine, compiled by a new \<^verbatim>\<open>Compiler\<close> (counter 0).\<close>

definition Query_all :: "query \<Rightarrow> string \<times> (string \<rightharpoonup> pyval)" where
  "Query_all q = fst (select (q_model q) (q_where q) (q_order_by q) (q_limit q) (q_offset q) 0)"

definition Query_count :: "query \<Rightarrow> string \<times> (string \<rightharpoonup> pyval)" where
  "Query_count q =
     (case fst (select (q_model q) (q_where q) (q_order_by q) None None 0) of
        (sql, params) \<Rightarrow>
          (''SELECT count() FROM ('' @ sql @ '') AS '' @ [CHR 0x22] @ ''sub'' @ [CHR 0x22], params))"

section \<open>DDL renderer (ddl.py)\<close>

definition render_columns_from_dict :: "(string \<times> coltype) list \<Rightarrow> string" where
  "render_columns_from_dict columns =
     join '',\<newline>  '' (map (\<lambda>(name, t). quote_ident name @ '' '' @ render_coltype t) columns)"

definition render_columns_from_model :: "model \<Rightarrow> string" where
  "render_columns_from_model m =
     join '',\<newline>  ''
       (map (\<lambda>(name, col). quote_ident (col_name col) @ '' '' @ render_coltype (ch_type col))
            (m_columns m))"

fun setting_item :: "string \<times> setting \<Rightarrow> string" where
  "setting_item (k, SBool v) = k @ ''='' @ (if v then ''1'' else ''0'')"
| "setting_item (k, SInt v) = k @ ''='' @ str_int v"
| "setting_item (k, SFloat v) = k @ ''='' @ v"
| "setting_item (k, SOther v) = k @ ''='' @ [CHR 0x27] @ v @ [CHR 0x27]"

definition render_settings :: "(string \<times> setting) list option \<Rightarrow> string option" where
  "render_settings settings =
     (case settings of
        None \<Rightarrow> None
      | Some items \<Rightarrow>
          if items = [] then None
          else Some (''SETTINGS '' @ join '', '' (map setting_item items)))"

text \<open>One index of \<^verbatim>\<open>_render_indexes\<close>; \<^verbatim>\<open>ix["name"]\<close> raises \<^verbatim>\<open>KeyError\<close> on a missing
  key, \<^verbatim>\<open>ix.get("granularity")\<close> does not.\<close>

definition subscript :: "index_dict \<Rightarrow> string \<Rightarrow> py_error + string" where
  "subscript ix k = (case map_of ix k of None \<Rightarrow> Inl KeyError | Some v \<Rightarrow> Inr v)"

definition index_part :: "index_dict \<Rightarrow> py_error + string" where
  "index_part ix =
     (case subscript ix ''name'' of Inl e \<Rightarrow> Inl e | Inr n \<Rightarrow>
     (case subscript ix ''expr'' of Inl e \<Rightarrow> Inl e | Inr expr \<Rightarrow>
     (case subscript ix ''type'' of Inl e \<Rightarrow> Inl e | Inr t \<Rightarrow>
     (case map_of ix ''granularity'' of
        None \<Rightarrow> Inr (''INDEX '' @ quote_ident n @ '' '' @ expr @ '' TYPE '' @ t)
      | Some gran \<Rightarrow>
          if gran \<noteq> []
          then Inr (''INDEX '' @ quote_ident n @ '' '' @ expr @ '' TYPE '' @ t @
                    '' GRANULARITY '' @ gran)
          else Inr (''INDEX '' @ quote_ident n @ '' '' @ expr @ '' TYPE '' @ t)))))"

fun index_parts :: "index_dict list \<Rightarrow> py_error + string list" where
  "index_parts [] = Inr []"
| "index_parts (ix # ixs) =
     (case index_part ix of Inl e \<Rightarrow> Inl e | Inr part \<Rightarrow>
     (case index_parts ixs of Inl e \<Rightarrow> Inl e | Inr parts \<Rightarrow> Inr (part # parts)))"

definition render_indexes :: "index_dict list option \<Rightarrow> py_error + string option" where
  "render_indexes indexes =
     (case indexes of
        None \<Rightarrow> Inr None
      | Some ixs \<Rightarrow>
          if ixs = [] then Inr None
          else (case index_parts ixs of
                  Inl e \<Rightarrow> Inl e
                | Inr parts \<Rightarrow> Inr (Some (join '',\<newline>  '' parts))))"

text \<open>The keyword arguments of \<^verbatim>\<open>create_table\<close>, and their defaults.\<close>

record ddl_args =
  a_engine :: string
  a_order_by :: "string list option"
  a_partition_by :: "string option"
  a_primary_key :: "string list option"
  a_ttl :: "string option"
  a_indexes :: "index_dict list option"
  a_settings :: "(string \<times> setting) list option"
  a_if_not_exists :: bool
  a_comment :: "string option"

definition default_args :: ddl_args where
  "default_args =
     \<lparr>a_engine = ''MergeTree'', a_order_by = None, a_partition_by = None,
      a_primary_key = None, a_ttl = None, a_indexes = None, a_settings = None,
      a_if_not_exists = True, a_comment = None\<rparr>"

text \<open>The optional clauses: the parts appended to the list \<^verbatim>\<open>parts\<close>, none when the
  argument is \<^verbatim>\<open>None\<close> or empty.\<close>

definition str_part :: "string \<Rightarrow> string option \<Rightarrow> string list" where
  "str_part kw v = (case v of None \<Rightarrow> [] | Some t \<Rightarrow> if t = [] then [] else [kw @ t])"

definition cols_part :: "string \<Rightarrow> string list option \<Rightarrow> string list" where
  "cols_part kw v =
     (case v of
        None \<Rightarrow> []
      | Some cs \<Rightarrow>
          if cs = [] then []
          else [kw @ '' ('' @ join '', '' (map quote_ident cs) @ '')''])"

definition create_head :: "bool \<Rightarrow> string \<Rightarrow> string" where
  "create_head if_not_exists tbl =
     ''CREATE TABLE '' @ (if if_not_exists then ''IF NOT EXISTS '' else []) @ tbl"

text \<open>
  The default of \<^verbatim>\<open>order_by\<close> in \<^verbatim>\<open>create_table\<close>. \<^verbatim>\<open>cols_lower\<close> maps each lower-cased
  column name to the name (a later column replaces an earlier one with the same
  lower-case form); \<^verbatim>\<open>next(iter(columns.keys()))\<close> raises \<^verbatim>\<open>StopIteration\<close> when there is
  no column.
\<close>

definition cols_lower :: "(string \<times> coltype) list \<Rightarrow> (string \<rightharpoonup> string)" where
  "cols_lower columns = foldl (\<lambda>d k. d(lower k \<mapsto> k)) Map.empty (map fst columns)"

definition resolve_order_by ::
  "(string \<times> coltype) list \<Rightarrow> string list option \<Rightarrow> py_error + string list option" where
  "resolve_order_by columns order_by =
     (case order_by of
        Some ob \<Rightarrow> Inr (Some ob)
      | None \<Rightarrow>
          (case cols_lower columns ''id'' of
             Some k \<Rightarrow> Inr (Some [k])
           | None \<Rightarrow>
               (case map fst columns of
                  [] \<Rightarrow> Inl StopIteration
                | first_col # _ \<Rightarrow> Inr (Some [first_col]))))"

text \<open>\<^verbatim>\<open>create_table\<close> and \<^verbatim>\<open>create_table_from_model\<close>: the statement handed to
  \<^verbatim>\<open>db.execute\<close>, or the exception raised before.\<close>

definition create_table ::
  "string \<Rightarrow> (string \<times> coltype) list \<Rightarrow> ddl_args \<Rightarrow> py_error + string" where
  "create_table name columns args =
     (let tbl = render_table_name name in
      case resolve_order_by columns (a_order_by args) of
        Inl e \<Rightarrow> Inl e
      | Inr order_by \<Rightarrow>
          (let cols_sql = render_columns_from_dict columns in
           case render_indexes (a_indexes args) of
             Inl e \<Rightarrow> Inl e
           | Inr ix \<Rightarrow>
               Inr (join ''\<newline>''
                 ([create_head (a_if_not_exists args) tbl, ''(\<newline>  '' @ cols_sql]
                  @ str_part '',\<newline>  '' ix
                  @ [''\<newline>)'', ''ENGINE = '' @ a_engine args]
                  @ str_part ''PARTITION BY '' (a_partition_by args)
                  @ cols_part ''PRIMARY KEY'' (a_primary_key args)
                  @ cols_part ''ORDER BY'' order_by
                  @ str_part ''TTL '' (a_ttl args)
                  @ str_part [] (render_settings (a_settings args))
                  @ (case a_comment args of
                       None \<Rightarrow> []
                     | Some c \<Rightarrow>
                         if c = [] then [] else [''COMMENT '' @ [CHR 0x27] @ c @ [CHR 0x27]])))))"

definition create_table_from_model :: "model \<Rightarrow> bool \<Rightarrow> py_error + string" where
  "create_table_from_model m if_not_exists =
     (let engine = (case m_engine m of None \<Rightarrow> ''MergeTree'' | Some e \<Rightarrow> e);
          cols_sql = render_columns_from_model m;
          tbl = render_table_name (m_table m) in
      case render_indexes (m_indexes m) of
        Inl e \<Rightarrow> Inl e
      | Inr ix \<Rightarrow>
          Inr (join ''\<newline>''
            ([create_head if_not_exists tbl, ''(\<newline>  '' @ cols_sql]
             @ str_part '',\<newline>  '' ix
             @ [''\<newline>)'', ''ENGINE = '' @ engine]
             @ str_part ''PARTITION BY '' (m_partition_by m)
             @ cols_part ''PRIMARY KEY'' (m_primary_key m)
             @ cols_part ''ORDER BY'' (m_order_by m)
             @ str_part ''TTL '' (m_ttl m)
             @ str_part [] (render_settings (m_settings m))
             @ (case m_comment m of
                  None \<Rightarrow> []
                | Some c \<Rightarrow>
                    if c = [] then [] else [''COMMENT '' @ [CHR 0x27] @ c @ [CHR 0x27]]))))"

section \<open>INSERT ... SELECT builder (insert_builder.py)\<close>

record T =
  t_alias :: string
  t_name :: string

datatype target = TargetModel model | TargetName string

record insert_builder =
  ib_target :: target
  ib_sources :: "T list"
  ib_mapping :: "(string \<times> string) list"
  ib_joins :: "string list"
  ib_where :: "string list"
  ib_group_by :: "string list"
  ib_order_by :: "string list"
  ib_validated :: bool

definition InsertBuilder :: "target \<Rightarrow> insert_builder" where
  "InsertBuilder tgt =
     \<lparr>ib_target = tgt, ib_sources = [], ib_mapping = [], ib_joins = [], ib_where = [],
      ib_group_by = [], ib_order_by = [], ib_validated = False\<rparr>"

definition sources :: "insert_builder \<Rightarrow> T list \<Rightarrow> insert_builder" where
  "sources b tables = b\<lparr>ib_sources := ib_sources b @ tables\<rparr>"

text \<open>The body of the loop over \<^verbatim>\<open>range(1, len(self._sources))\<close>.\<close>

definition join_source :: "insert_builder \<Rightarrow> nat \<Rightarrow> string" where
  "join_source b i =
     (let on = (if i - 1 < length (ib_joins b) then ib_joins b ! (i - 1) else [])
      in '' JOIN '' @ render_table_name (t_name (ib_sources b ! i)) @ '' AS '' @
         t_alias (ib_sources b ! i) @ (if on \<noteq> [] then '' ON '' @ on else []))"

definition list_clause :: "string \<Rightarrow> string \<Rightarrow> string list \<Rightarrow> string" where
  "list_clause kw sep xs = (if xs = [] then [] else kw @ join sep xs)"

text \<open>\<^verbatim>\<open>InsertBuilder.compile\<close>: the pair of \<^verbatim>\<open>insert_sql\<close> and \<^verbatim>\<open>select_sql\<close>, or the
  \<^verbatim>\<open>AssertionError\<close> of a failed \<^verbatim>\<open>assert\<close>.\<close>

definition compile :: "insert_builder \<Rightarrow> py_error + (string \<times> string)" where
  "compile b =
     (if ib_sources b = [] then Inl AssertionError
      else
        let from_clause =
              render_table_name (t_name (ib_sources b ! 0)) @ '' AS '' @ t_alias (ib_sources b ! 0)
              @ concat (map (join_source b) [1..<length (ib_sources b)])
        in if ib_mapping b = [] then Inl AssertionError
           else
             let select_clause =
                   join '', '' (map (\<lambda>(col, expr). expr @ '' AS '' @ quote_ident col) (ib_mapping b));
                 where_clause = list_clause '' WHERE '' '' AND '' (ib_where b);
                 group_clause = list_clause '' GROUP BY '' '', '' (ib_group_by b);
                 order_clause = list_clause '' ORDER BY '' '', '' (ib_order_by b);
                 select_sql = ''SELECT '' @ select_clause @ '' FROM '' @ from_clause @
                              where_clause @ group_clause @ order_clause;
                 cols_quoted = join '', '' (map quote_ident (map fst (ib_mapping b)));
                 tbl = render_table_name
                         (case ib_target b of TargetName s \<Rightarrow> s | TargetModel m \<Rightarrow> m_table m);
                 insert_sql = ''INSERT INTO '' @ tbl @ '' ('' @ cols_quoted @ '') '' @ select_sql
             in Inr (insert_sql, select_sql))"

section \<open>Notions the properties are stated with\<close>

text \<open>
  The quoting the specification describes, written from its words: strip one layer of
  enclosing quote characters (double quote, backtick or single quote) when the same one
  stands at both ends, then wrap in double quotes, doubling every embedded double quote.
\<close>

definition spec_strip_layer :: "string \<Rightarrow> string" where
  "spec_strip_layer s =
     (if s \<noteq> [] \<and> hd s = last s \<and> hd s \<in> set [CHR 0x22, CHR 0x60, CHR 0x27]
      then butlast (tl s) else s)"

definition spec_quote :: "string \<Rightarrow> string" where
  "spec_quote ident =
     [CHR 0x22] @ concat (map (\<lambda>c. if c = CHR 0x22 then [CHR 0x22, CHR 0x22] else [c])
                           (spec_strip_layer ident)) @ [CHR 0x22]"

text \<open>Reading a double-quoted identifier back: the text between the outer quotes, with
  each doubled quote read as one; \<open>None\<close> when a quote inside stands alone or the closing
  quote is missing.\<close>

fun undouble :: "string \<Rightarrow> string option" where
  "undouble [] = None"
| "undouble [c] = (if c = CHR 0x22 then Some [] else None)"
| "undouble (c # d # cs) =
     (if c = CHR 0x22
      then (if d = CHR 0x22 then map_option (Cons (CHR 0x22)) (undouble cs) else None)
      else map_option (Cons c) (undouble (d # cs)))"

definition unquote :: "string \<Rightarrow> string option" where
  "unquote s = (case s of [] \<Rightarrow> None | c # cs \<Rightarrow> if c = CHR 0x22 then undouble cs else None)"


text \<open>The row-count statement around a compiled SELECT, and the same parameter map.\<close>

definition count_wrap :: "string \<times> (string \<rightharpoonup> pyval) \<Rightarrow> string \<times> (string \<rightharpoonup> pyval)" where
  "count_wrap stmt =
     (''SELECT count() FROM ('' @ fst stmt @ '') AS '' @ [CHR 0x22] @ ''sub'' @ [CHR 0x22], snd stmt)"

text \<open>A model with two columns and no DDL directive, as in the specification's
  scenarios.\<close>

definition events_model :: model where
  "events_model =
     \<lparr>m_table = ''events'',
      m_columns = [(''id'', \<lparr>ch_type = TypeOf UInt64, primary_key = False, col_name = ''id''\<rparr>),
                   (''ts'', \<lparr>ch_type = TypeOf (DateTime64 3), primary_key = False, col_name = ''ts''\<rparr>)],
      m_engine = None, m_order_by = None, m_partition_by = None, m_primary_key = None,
      m_ttl = None, m_settings = None, m_indexes = None, m_comment = None\<rparr>"

text \<open>The number of literal nodes of a tree, and the name the allocator issues at
  counter \<open>k\<close>.\<close>

fun num_values :: "'v expr \<Rightarrow> nat" where
  "num_values (ColumnExpr c) = 0"
| "num_values (ValueExpr v) = 1"
| "num_values (BinaryExpr l op r) = num_values l + num_values r"
| "num_values (LogicalExpr l op r) = num_values l + num_values r"
| "num_values (Raw s) = 0"

definition pname :: "nat \<Rightarrow> string" where
  "pname k = ''p'' @ str_nat k"

text \<open>The pieces of the statement and of the parameter map that \<^const>\<open>select\<close> builds, one
  per clause, with the counter each clause starts from.\<close>

definition limit_clause :: "string \<Rightarrow> int option \<Rightarrow> nat \<Rightarrow> string" where
  "limit_clause kw n i = (case n of None \<Rightarrow> [] | Some _ \<Rightarrow> kw @ ''%('' @ pname i @ '')s'')"

definition bump :: "'a option \<Rightarrow> nat \<Rightarrow> nat" where
  "bump n i = (case n of None \<Rightarrow> i | Some _ \<Rightarrow> Suc i)"

definition where_clause :: "pyval expr option \<Rightarrow> nat \<Rightarrow> string" where
  "where_clause w i = (case w of None \<Rightarrow> [] | Some e \<Rightarrow> '' WHERE '' @ fst (fst (to_sql e i)))"

definition where_counter :: "pyval expr option \<Rightarrow> nat \<Rightarrow> nat" where
  "where_counter w i = (case w of None \<Rightarrow> i | Some e \<Rightarrow> snd (to_sql e i))"

definition where_params :: "pyval expr option \<Rightarrow> nat \<Rightarrow> (string \<rightharpoonup> pyval)" where
  "where_params w i = (case w of None \<Rightarrow> Map.empty | Some e \<Rightarrow> snd (fst (to_sql e i)))"

definition bind_int :: "int option \<Rightarrow> nat \<Rightarrow> (string \<rightharpoonup> pyval) \<Rightarrow> (string \<rightharpoonup> pyval)" where
  "bind_int n k ps = (case n of None \<Rightarrow> ps | Some v \<Rightarrow> ps(pname k \<mapsto> PyInt v))"

text \<open>
  The placeholder names that occur in a statement: at every \<^verbatim>\<open>%\<close> that starts a fragment
  \<^verbatim>\<open>%(name)s\<close>, the name, which runs up to the first closing parenthesis. The names are
  listed in the order of their occurrence, once per occurrence.
\<close>

definition placeholder_at :: "string \<Rightarrow> string option" where
  "placeholder_at s =
     (case s of
        [] \<Rightarrow> None
      | c # r \<Rightarrow>
          if c = CHR ''(''
          then (case dropWhile (\<lambda>x. x \<noteq> CHR '')'') r of
                  _ # d # _ \<Rightarrow> if d = CHR ''s'' then Some (takeWhile (\<lambda>x. x \<noteq> CHR '')'') r) else None
                | _ \<Rightarrow> None)
          else None)"

fun placeholders :: "string \<Rightarrow> string list" where
  "placeholders [] = []"
| "placeholders (c # cs) =
     (if c = CHR ''%''
      then (case placeholder_at cs of Some n \<Rightarrow> n # placeholders cs | None \<Rightarrow> placeholders cs)
      else placeholders cs)"

text \<open>The text fragments a SELECT takes over as they are (the table name, the column
  names, the operators and raw fragments of the filter tree, the names and directions of
  the ordering) hold no \<^verbatim>\<open>%\<close> character.\<close>

definition no_pct :: "string \<Rightarrow> bool" where
  "no_pct s = (CHR ''%'' \<notin> set s)"

fun expr_no_pct :: "'v expr \<Rightarrow> bool" where
  "expr_no_pct (ColumnExpr c) = no_pct c"
| "expr_no_pct (ValueExpr v) = True"
| "expr_no_pct (BinaryExpr l op r) = (expr_no_pct l \<and> no_pct op \<and> expr_no_pct r)"
| "expr_no_pct (LogicalExpr l op r) = (expr_no_pct l \<and> no_pct op \<and> expr_no_pct r)"
| "expr_no_pct (Raw s) = no_pct s"

definition select_no_pct :: "model \<Rightarrow> 'v expr option \<Rightarrow> (string \<times> string) list option \<Rightarrow> bool" where
  "select_no_pct m w ob =
     (no_pct (m_table m) \<and> list_all (\<lambda>c. no_pct (col_name (snd c))) (m_columns m) \<and>
      (case w of None \<Rightarrow> True | Some e \<Rightarrow> expr_no_pct e) \<and>
      (case ob of None \<Rightarrow> True | Some obs \<Rightarrow> list_all (\<lambda>(c, d). no_pct c \<and> no_pct d) obs))"

text \<open>
  The left-nested chain of AND groups over the texts of the predicates, the tree that
  \<^verbatim>\<open>Query.filter\<close> accumulates, and the texts of the predicates of a chain, each compiled
  from the counter the one before has left. \<open>id_eq\<close> is the predicate \<^verbatim>\<open>Model.id == v\<close>.
\<close>

definition and_chain :: "string list \<Rightarrow> string" where
  "and_chain ts = foldl (\<lambda>acc t. ''('' @ acc @ '' AND '' @ t @ '')'') (hd ts) (tl ts)"

definition and_tree :: "'v expr \<Rightarrow> 'v expr list \<Rightarrow> 'v expr" where
  "and_tree w es = foldl (\<lambda>w e. LogicalExpr w ''AND'' e) w es"

fun pred_texts :: "nat \<Rightarrow> 'v expr list \<Rightarrow> string list" where
  "pred_texts i [] = []"
| "pred_texts i (e # es) = fst (fst (to_sql e i)) # pred_texts (snd (to_sql e i)) es"

definition id_eq :: "int \<Rightarrow> pyval expr" where
  "id_eq v = BinaryExpr (ColumnExpr ''id'') ''='' (ValueExpr (PyInt v))"

text \<open>A character that is not whitespace.\<close>

definition nonspace :: "char \<Rightarrow> bool" where
  "nonspace c = (\<not> isspace c)"

text \<open>The values of the literal nodes of a tree, from left to right: the order in which
  \<^verbatim>\<open>to_sql\<close> asks the allocator for their names.\<close>

fun literals :: "'v expr \<Rightarrow> 'v list" where
  "literals (ColumnExpr c) = []"
| "literals (ValueExpr v) = [v]"
| "literals (BinaryExpr l op r) = literals l @ literals r"
| "literals (LogicalExpr l op r) = literals l @ literals r"
| "literals (Raw s) = []"

section \<open>Properties of identifier quoting\<close>

lemma last_dropWhile_ne: "dropWhile P xs \<noteq> [] \<Longrightarrow> last (dropWhile P xs) = last xs"
  by (induction xs) (auto split: if_splits)

lemma strip_fix: "u = [] \<or> (\<not> isspace (hd u) \<and> \<not> isspace (last u)) \<Longrightarrow> strip u = u"
proof (cases u)
  case Nil then show ?thesis by (simp add: strip_def)
next
  case (Cons a as)
  assume "u = [] \<or> (\<not> isspace (hd u) \<and> \<not> isspace (last u))"
  with Cons have h: "\<not> isspace (hd u)" and l: "\<not> isspace (last u)" by auto
  from h Cons have 1: "dropWhile isspace u = u" by simp
  from Cons have "rev u \<noteq> []" by simp
  moreover have "hd (rev u) = last u" using Cons by (simp add: hd_rev)
  ultimately have 2: "dropWhile isspace (rev u) = rev u" using l
    by (metis dropWhile_eq_self_iff)
  show ?thesis by (simp add: strip_def 1 2)
qed

lemma strip_ends: "strip s = [] \<or> (\<not> isspace (hd (strip s)) \<and> \<not> isspace (last (strip s)))"
proof (cases "strip s = []")
  case True then show ?thesis by simp
next
  case False
  let ?t = "dropWhile isspace s"
  let ?u = "dropWhile isspace (rev ?t)"
  have s: "strip s = rev ?u" by (simp add: strip_def)
  have une: "?u \<noteq> []"
  proof
    assume "?u = []"
    then have "strip s = []" by (simp only: s rev.simps)
    with False show False by simp
  qed
  have tne: "?t \<noteq> []"
  proof
    assume "?t = []"
    then have "?u = []" by (simp only: rev.simps dropWhile.simps)
    with une show False by (rule notE)
  qed
  have "\<not> isspace (hd ?u)" using une by (rule hd_dropWhile)
  then have a: "\<not> isspace (last (strip s))" using une by (simp add: s last_rev)
  have "last ?u = last (rev ?t)" using une by (rule last_dropWhile_ne)
  also have "\<dots> = hd ?t" using tne by (simp add: last_rev)
  finally have "hd (strip s) = hd ?t" using une by (simp add: s hd_rev)
  moreover have "\<not> isspace (hd ?t)" using tne by (rule hd_dropWhile)
  ultimately show ?thesis using a by simp
qed

lemma strip_idem: "strip (strip s) = strip s"
  by (rule strip_fix) (rule strip_ends)

lemma set_strip: "set (strip s) \<subseteq> set s"
proof -
  have "set (strip s) \<subseteq> set (dropWhile isspace s)"
    unfolding strip_def using set_dropWhileD by fastforce
  also have "\<dots> \<subseteq> set s" using set_dropWhileD by fastforce
  finally show ?thesis .
qed

lemma in_dropWhile: "x \<in> set xs \<Longrightarrow> \<not> P x \<Longrightarrow> x \<in> set (dropWhile P xs)"
  by (induction xs) auto

lemma in_strip: "x \<in> set s \<Longrightarrow> \<not> isspace x \<Longrightarrow> x \<in> set (strip s)"
proof -
  assume a: "x \<in> set s" and b: "\<not> isspace x"
  then have "x \<in> set (dropWhile isspace s)" by (rule in_dropWhile)
  then have "x \<in> set (rev (dropWhile isspace s))" by simp
  then have "x \<in> set (dropWhile isspace (rev (dropWhile isspace s)))" using b by (rule in_dropWhile)
  then show ?thesis by (simp add: strip_def)
qed

lemma dot_in_strip: "CHR ''.'' \<in> set (strip s) \<longleftrightarrow> CHR ''.'' \<in> set s"
proof
  assume "CHR ''.'' \<in> set (strip s)" then show "CHR ''.'' \<in> set s" using set_strip by blast
next
  assume "CHR ''.'' \<in> set s"
  moreover have "\<not> isspace (CHR ''.'')" by (simp add: isspace_def)
  ultimately show "CHR ''.'' \<in> set (strip s)" by (rule in_strip)
qed

lemma startswith1: "startswith s [q] = (s \<noteq> [] \<and> hd s = q)"
  by (cases s) (auto simp: startswith_def)

lemma endswith1: "endswith s [q] = (s \<noteq> [] \<and> last s = q)"
proof (cases s rule: rev_cases)
  case Nil then show ?thesis by (simp add: endswith_def)
next
  case (snoc ys y) then show ?thesis by (simp add: endswith_def)
qed

lemma strip_any_quotes_spec: "strip_any_quotes name = spec_strip_layer (strip name)"
  by (auto simp: strip_any_quotes_def spec_strip_layer_def startswith1 endswith1 Let_def strip_def)

lemma quote_ident_strip: "quote_ident (strip name) = quote_ident name"
  by (simp add: quote_ident_def strip_any_quotes_spec strip_idem)

lemma undouble_replace:
  "undouble (replace_char (CHR 0x22) [CHR 0x22, CHR 0x22] raw @ [CHR 0x22]) = Some raw"
proof (induction raw)
  case Nil then show ?case by (simp add: replace_char_def)
next
  case (Cons c cs)
  show ?case
  proof (cases "c = CHR 0x22")
    case True then show ?thesis using Cons by (simp add: replace_char_def)
  next
    case False
    obtain d ds where "replace_char (CHR 0x22) [CHR 0x22, CHR 0x22] cs @ [CHR 0x22] = d # ds"
      by (cases "replace_char (CHR 0x22) [CHR 0x22, CHR 0x22] cs @ [CHR 0x22]") auto
    then show ?thesis using Cons False by (simp add: replace_char_def)
  qed
qed

text \<open>
  C4 (amended). \<^verbatim>\<open>quote_ident\<close> returns a result for every string: the identifier with its
  surrounding whitespace trimmed, then stripped of at most one layer of enclosing quote
  characters, with every embedded double quote doubled, in one pair of outer double
  quotes. Read back as a quoted identifier, the result is that stripped text.
\<close>

theorem quote_ident_shape:
  "quote_ident name = spec_quote (strip name) \<and>
   unquote (quote_ident name) = Some (spec_strip_layer (strip name))"
  using undouble_replace[of "strip_any_quotes name"]
  by (simp add: quote_ident_def spec_quote_def strip_any_quotes_spec replace_char_def unquote_def)

theorem quote_ident_shape_witness:
  "quote_ident [CHR ''M'', CHR ''y'', CHR '' '', CHR 0x22, CHR ''T'', CHR 0x22] =
     [CHR 0x22, CHR ''M'', CHR ''y'', CHR '' '', CHR 0x22, CHR 0x22, CHR ''T'', CHR 0x22, CHR 0x22, CHR 0x22]"
  using quote_ident_shape[of "[CHR ''M'', CHR ''y'', CHR '' '', CHR 0x22, CHR ''T'', CHR 0x22]"]
  by (simp add: spec_quote_def spec_strip_layer_def strip_def isspace_def)

text \<open>Without the trimming the statement fails: an identifier with a leading space and
  an embedded double quote is not rendered as the specification's words say.\<close>

theorem quote_ident_untrimmed_counterexample:
  "quote_ident [CHR '' '', CHR ''a'', CHR 0x22, CHR ''b''] \<noteq>
   spec_quote [CHR '' '', CHR ''a'', CHR 0x22, CHR ''b'']"
  by (simp add: quote_ident_def spec_quote_def strip_any_quotes_def spec_strip_layer_def
      strip_def isspace_def startswith_def endswith_def replace_char_def)

lemma split_first_dot_append:
  "CHR ''.'' \<notin> set a \<Longrightarrow> split_first_dot (a @ CHR ''.'' # b) = (a, b)"
  by (induction a) (auto simp: split_first_dot_def)
  
text \<open>
  C5 (amended). A name without a dot is quoted as one identifier. A name with at least
  one dot is split, after trimming, at its first dot into two parts, each quoted on its
  own and joined by a dot; a name with exactly one dot is the case where the second
  part has no dot.
\<close>

theorem render_table_name_first_dot:
  "(CHR ''.'' \<notin> set name \<longrightarrow> render_table_name name = quote_ident name) \<and>
   (\<forall>a b. strip name = a @ ''.'' @ b \<and> CHR ''.'' \<notin> set a \<longrightarrow>
      render_table_name name = quote_ident a @ ''.'' @ quote_ident b)"
proof (intro conjI impI allI)
  assume "CHR ''.'' \<notin> set name"
  then have "CHR ''.'' \<notin> set (strip name)" by (simp add: dot_in_strip)
  then show "render_table_name name = quote_ident name"
    by (simp add: render_table_name_def quote_ident_strip)
next
  fix a b
  assume h: "strip name = a @ ''.'' @ b \<and> CHR ''.'' \<notin> set a"
  then have "split_first_dot (strip name) = (a, b)" using split_first_dot_append[of a b] by simp
  moreover have "CHR ''.'' \<in> set (strip name)" using h by simp
  ultimately show "render_table_name name = quote_ident a @ ''.'' @ quote_ident b"
    by (simp add: render_table_name_def)
qed

theorem render_table_name_first_dot_witness:
  "render_table_name ''events'' = quote_ident ''events'' \<and>
   render_table_name '' a.b.c '' = quote_ident ''a'' @ ''.'' @ quote_ident ''b.c''"
proof -
  have 1: "CHR ''.'' \<notin> set ''events''" by simp
  have 2: "strip '' a.b.c '' = ''a'' @ ''.'' @ ''b.c'' \<and> CHR ''.'' \<notin> set ''a''"
    by (simp add: strip_def isspace_def)
  show ?thesis
    using render_table_name_first_dot[of "''events''"] render_table_name_first_dot[of "'' a.b.c ''"] 1 2
    by blast
qed

text \<open>A name with two dots is not quoted as one identifier.\<close>

theorem render_table_name_two_dots_counterexample:
  "render_table_name ''a.b.c'' \<noteq> quote_ident ''a.b.c''"
  by (simp add: render_table_name_def quote_ident_def strip_any_quotes_def split_first_dot_def
      strip_def isspace_def startswith_def endswith_def replace_char_def)

section \<open>Properties of the decimal text\<close>

lemma digit_cases: "d < 10 \<Longrightarrow> d \<in> {0, 1, 2, 3, 4, 5, 6, 7, 8, 9::nat}"
  by auto

lemma digit_val_digit_char: "d < 10 \<Longrightarrow> digit_val (digit_char d) = d"
  using digit_cases[of d] by (auto simp: digit_val_def digit_char_def)

lemma isdigit_digit_char: "d < 10 \<Longrightarrow> isdigit (digit_char d)"
  using digit_cases[of d] by (auto simp: isdigit_def digit_char_def)

lemma int_of_digits_snoc: "int_of_digits (xs @ [c]) = 10 * int_of_digits xs + digit_val c"
  by (simp add: int_of_digits_def)

lemma int_of_digits_str_nat: "int_of_digits (str_nat n) = n"
proof (induction n rule: str_nat.induct)
  case (1 n)
  show ?case
  proof (cases "n < 10")
    case True
    then show ?thesis by (simp add: str_nat.simps[of n] int_of_digits_def digit_val_digit_char)
  next
    case False
    then have "int_of_digits (str_nat n) = 10 * int_of_digits (str_nat (n div 10)) + digit_val (digit_char (n mod 10))"
      by (simp add: str_nat.simps[of n] int_of_digits_snoc)
    also have "\<dots> = 10 * (n div 10) + n mod 10" using 1 False by (simp add: digit_val_digit_char)
    finally show ?thesis by simp
  qed
qed

lemma str_nat_inj: "str_nat a = str_nat b \<Longrightarrow> a = b"
  by (metis int_of_digits_str_nat)

lemma str_nat_digits: "list_all isdigit (str_nat n)"
proof (induction n rule: str_nat.induct)
  case (1 n)
  show ?case
  proof (cases "n < 10")
    case True
    then show ?thesis by (simp add: str_nat.simps[of n] isdigit_digit_char)
  next
    case False
    then show ?thesis using 1 by (simp add: str_nat.simps[of n] isdigit_digit_char)
  qed
qed

lemma str_nat_nonempty: "str_nat n \<noteq> []"
  by (simp add: str_nat.simps[of n])

lemma str_nat_no_char: "\<not> isdigit c \<Longrightarrow> c \<notin> set (str_nat n)"
  using str_nat_digits[of n] by (auto simp: list_all_iff)

section \<open>Properties of the SELECT compiler\<close>

lemma to_sql_Binary:
  "to_sql (BinaryExpr l op r) i =
     ((''('' @ fst (fst (to_sql l i)) @ '' '' @ op @ '' '' @ fst (fst (to_sql r (snd (to_sql l i)))) @ '')'',
       snd (fst (to_sql l i)) ++ snd (fst (to_sql r (snd (to_sql l i))))),
      snd (to_sql r (snd (to_sql l i))))"
  by (simp split: prod.splits)

lemma to_sql_Logical:
  "to_sql (LogicalExpr l op r) i =
     ((''('' @ fst (fst (to_sql l i)) @ '' '' @ op @ '' '' @ fst (fst (to_sql r (snd (to_sql l i)))) @ '')'',
       snd (fst (to_sql l i)) ++ snd (fst (to_sql r (snd (to_sql l i))))),
      snd (to_sql r (snd (to_sql l i))))"
  by (simp split: prod.splits)

lemma to_sql_Value:
  "to_sql (ValueExpr v) i = ((''%('' @ pname i @ '')s'', [pname i \<mapsto> v]), Suc i)"
  by (simp add: add_param_def pname_def)

declare to_sql.simps(2,3,4) [simp del]

declare to_sql_Value [simp] to_sql_Binary [simp] to_sql_Logical [simp]

lemma to_sql_counter: "snd (to_sql e i) = i + num_values e"
  by (induction e arbitrary: i) simp_all

lemma upt_split_set: "{i ..< i + (a + b)} = {i ..< i + a} \<union> {i + a ..< i + a + b}" for i a b :: nat
  by auto

lemma to_sql_dom: "dom (snd (fst (to_sql e i))) = pname ` {i ..< i + num_values e}"
proof (induction e arbitrary: i)
  case (BinaryExpr l op r)
  show ?case
    by (simp add: BinaryExpr to_sql_counter upt_split_set image_Un Un_commute)
next
  case (LogicalExpr l op r)
  show ?case
    by (simp add: LogicalExpr to_sql_counter upt_split_set image_Un Un_commute)
qed simp_all

lemma to_sql_dom_counter: "dom (snd (fst (to_sql e i))) = pname ` {i ..< snd (to_sql e i)}"
  by (simp only: to_sql_dom to_sql_counter)

lemma to_sql_same_shape:
  "rel_expr (\<lambda>a b. True) e1 e2 \<Longrightarrow>
     fst (fst (to_sql e1 i)) = fst (fst (to_sql e2 i)) \<and> snd (to_sql e1 i) = snd (to_sql e2 i)"
proof (induction e1 arbitrary: e2 i)
  case (ColumnExpr x)
  then show ?case by (cases e2) auto
next
  case (ValueExpr x)
  then show ?case by (cases e2) simp_all
next
  case (BinaryExpr l op r)
  then obtain l' r' where e2: "e2 = BinaryExpr l' op r'" and rl: "rel_expr (\<lambda>a b. True) l l'"
    and rr: "rel_expr (\<lambda>a b. True) r r'"
    by (cases e2) auto
  from BinaryExpr.IH(1)[OF rl, of i] BinaryExpr.IH(2)[OF rr, of "snd (to_sql l i)"]
  show ?case unfolding e2 by simp
next
  case (LogicalExpr l op r)
  then obtain l' r' where e2: "e2 = LogicalExpr l' op r'" and rl: "rel_expr (\<lambda>a b. True) l l'"
    and rr: "rel_expr (\<lambda>a b. True) r r'"
    by (cases e2) auto
  from LogicalExpr.IH(1)[OF rl, of i] LogicalExpr.IH(2)[OF rr, of "snd (to_sql l i)"]
  show ?case unfolding e2 by simp
next
  case (Raw x)
  then show ?case by (cases e2) auto
qed

lemma to_sql_same_dom:
  "rel_expr (\<lambda>a b. True) e1 e2 \<Longrightarrow> dom (snd (fst (to_sql e1 i))) = dom (snd (fst (to_sql e2 i)))"
  using to_sql_same_shape[of e1 e2 i] by (simp only: to_sql_dom_counter)

lemma select_eq:
  "select m w ob lim off i =
     ((select_head m @ where_clause w i @ order_by_clause ob @
       limit_clause '' LIMIT '' lim (where_counter w i) @
       limit_clause '' OFFSET '' off (bump lim (where_counter w i)),
       bind_int off (bump lim (where_counter w i))
         (bind_int lim (where_counter w i) (where_params w i))),
      bump off (bump lim (where_counter w i)))"
  by (simp add: select_def where_clause_def where_counter_def where_params_def limit_clause_def
      bind_int_def bump_def add_param_def pname_def Let_def split: option.splits prod.splits)

lemma where_counter_le: "i \<le> where_counter w i"
  by (simp add: where_counter_def to_sql_counter split: option.splits)

lemma bump_le: "k \<le> bump n k"
  by (simp add: bump_def split: option.splits)

lemma where_params_dom: "dom (where_params w i) = pname ` {i ..< where_counter w i}"
  by (simp add: where_params_def where_counter_def to_sql_dom_counter split: option.splits)

lemma bind_int_dom:
  "dom ps = pname ` {i ..< k} \<Longrightarrow> i \<le> k \<Longrightarrow> dom (bind_int n k ps) = pname ` {i ..< bump n k}"
  by (simp add: bind_int_def bump_def atLeastLessThanSuc split: option.splits)

lemma select_dom:
  "dom (snd (fst (select m w ob lim off i))) = pname ` {i ..< snd (select m w ob lim off i)}"
proof -
  let ?k1 = "where_counter w i"
  have 1: "dom (bind_int lim ?k1 (where_params w i)) = pname ` {i ..< bump lim ?k1}"
    using where_params_dom where_counter_le by (rule bind_int_dom)
  have "i \<le> bump lim ?k1" using where_counter_le[of i w] bump_le[of ?k1 lim] by simp
  with 1 have "dom (bind_int off (bump lim ?k1) (bind_int lim ?k1 (where_params w i))) =
      pname ` {i ..< bump off (bump lim ?k1)}"
    by (rule bind_int_dom)
  then show ?thesis by (simp add: select_eq)
qed

lemma pname_inj: "pname a = pname b \<Longrightarrow> a = b"
  by (simp add: pname_def str_nat_inj)

lemma length_literals: "length (literals e) = num_values e"
  by (induction e) simp_all

lemma map_add_pick:
  assumes "dom lp = pname ` {i ..< j}" and "dom rp = pname ` {j ..< n}"
  shows "k < j \<Longrightarrow> (lp ++ rp) (pname k) = lp (pname k)"
    and "rp (pname k) = Some v \<Longrightarrow> (lp ++ rp) (pname k) = Some v"
proof -
  assume "k < j"
  have "pname k \<notin> dom rp"
  proof
    assume "pname k \<in> dom rp"
    then obtain k' where "k' \<in> {j ..< n}" and "pname k = pname k'" using assms(2) by auto
    then have "k = k'" using pname_inj by blast
    with \<open>k' \<in> {j ..< n}\<close> \<open>k < j\<close> show False by simp
  qed
  then show "(lp ++ rp) (pname k) = lp (pname k)" by (simp add: map_add_dom_app_simps)
next
  assume "rp (pname k) = Some v"
  then show "(lp ++ rp) (pname k) = Some v" by (simp add: map_add_Some_iff)
qed

lemma binds_combine:
  assumes l: "\<And>k. k < nl \<Longrightarrow> lp (pname (i + k)) = Some (ls ! k)"
    and r: "\<And>k. k < nr \<Longrightarrow> rp (pname (i + nl + k)) = Some (rs ! k)"
    and dl: "dom lp = pname ` {i ..< i + nl}" and dr: "dom rp = pname ` {i + nl ..< i + nl + nr}"
    and len: "length ls = nl"
    and k: "k < nl + nr"
  shows "(lp ++ rp) (pname (i + k)) = Some ((ls @ rs) ! k)"
proof (cases "k < nl")
  case True
  then have "(lp ++ rp) (pname (i + k)) = lp (pname (i + k))"
    using map_add_pick(1)[OF dl dr, of "i + k"] by simp
  then show ?thesis using True l[of k] len by (simp add: nth_append)
next
  case False
  then have kk: "k - nl < nr" using k by simp
  have "rp (pname (i + nl + (k - nl))) = Some (rs ! (k - nl))" using r[OF kk] .
  moreover have "i + nl + (k - nl) = i + k" using False by simp
  ultimately have "rp (pname (i + k)) = Some (rs ! (k - nl))" by simp
  then have "(lp ++ rp) (pname (i + k)) = Some (rs ! (k - nl))"
    by (rule map_add_pick(2)[OF dl dr])
  then show ?thesis using False len by (simp add: nth_append)
qed

lemma to_sql_binds:
  "k < num_values e \<Longrightarrow> snd (fst (to_sql e i)) (pname (i + k)) = Some (literals e ! k)"
proof (induction e arbitrary: i k)
  case (BinaryExpr l op r)
  have "(snd (fst (to_sql l i)) ++ snd (fst (to_sql r (i + num_values l)))) (pname (i + k)) =
        Some ((literals l @ literals r) ! k)"
  proof (rule binds_combine[where nl = "num_values l" and nr = "num_values r"])
    show "\<And>k. k < num_values l \<Longrightarrow> snd (fst (to_sql l i)) (pname (i + k)) = Some (literals l ! k)"
      by (rule BinaryExpr.IH(1))
    show "\<And>k. k < num_values r \<Longrightarrow>
        snd (fst (to_sql r (i + num_values l))) (pname (i + num_values l + k)) = Some (literals r ! k)"
      by (rule BinaryExpr.IH(2))
    show "dom (snd (fst (to_sql l i))) = pname ` {i ..< i + num_values l}" by (rule to_sql_dom)
    show "dom (snd (fst (to_sql r (i + num_values l)))) =
        pname ` {i + num_values l ..< i + num_values l + num_values r}" by (rule to_sql_dom)
    show "length (literals l) = num_values l" by (rule length_literals)
    show "k < num_values l + num_values r" using BinaryExpr.prems by simp
  qed
  then show ?case by (simp add: to_sql_counter)
next
  case (LogicalExpr l op r)
  have "(snd (fst (to_sql l i)) ++ snd (fst (to_sql r (i + num_values l)))) (pname (i + k)) =
        Some ((literals l @ literals r) ! k)"
  proof (rule binds_combine[where nl = "num_values l" and nr = "num_values r"])
    show "\<And>k. k < num_values l \<Longrightarrow> snd (fst (to_sql l i)) (pname (i + k)) = Some (literals l ! k)"
      by (rule LogicalExpr.IH(1))
    show "\<And>k. k < num_values r \<Longrightarrow>
        snd (fst (to_sql r (i + num_values l))) (pname (i + num_values l + k)) = Some (literals r ! k)"
      by (rule LogicalExpr.IH(2))
    show "dom (snd (fst (to_sql l i))) = pname ` {i ..< i + num_values l}" by (rule to_sql_dom)
    show "dom (snd (fst (to_sql r (i + num_values l)))) =
        pname ` {i + num_values l ..< i + num_values l + num_values r}" by (rule to_sql_dom)
    show "length (literals l) = num_values l" by (rule length_literals)
    show "k < num_values l + num_values r" using LogicalExpr.prems by simp
  qed
  then show ?case by (simp add: to_sql_counter)
qed simp_all

lemma to_sql_placeholder_occurs:
  "k < num_values e \<Longrightarrow>
   \<exists>pre post. fst (fst (to_sql e i)) = pre @ ''%('' @ pname (i + k) @ '')s'' @ post"
proof (induction e arbitrary: i k)
  case (ValueExpr v)
  then have "fst (fst (to_sql (ValueExpr v) i)) = [] @ ''%('' @ pname (i + k) @ '')s'' @ []" by simp
  then show ?case by blast
next
  case (BinaryExpr l op r)
  let ?j = "i + num_values l"
  let ?ls = "fst (fst (to_sql l i))" and ?rs = "fst (fst (to_sql r ?j))"
  have t: "fst (fst (to_sql (BinaryExpr l op r) i)) = ''('' @ ?ls @ '' '' @ op @ '' '' @ ?rs @ '')''"
    by (simp add: to_sql_counter)
  show ?case
  proof (cases "k < num_values l")
    case True
    from BinaryExpr.IH(1)[OF True, of i] obtain pre post where
      "?ls = pre @ ''%('' @ pname (i + k) @ '')s'' @ post" by blast
    then have "fst (fst (to_sql (BinaryExpr l op r) i)) =
        (''('' @ pre) @ ''%('' @ pname (i + k) @ '')s'' @ (post @ '' '' @ op @ '' '' @ ?rs @ '')'')"
      unfolding t by simp
    then show ?thesis by blast
  next
    case False
    then have kk: "k - num_values l < num_values r" using BinaryExpr.prems by simp
    have e: "?j + (k - num_values l) = i + k" using False by simp
    from BinaryExpr.IH(2)[OF kk, of ?j] obtain pre post where
      "?rs = pre @ ''%('' @ pname (i + k) @ '')s'' @ post" unfolding e by blast
    then have "fst (fst (to_sql (BinaryExpr l op r) i)) =
        (''('' @ ?ls @ '' '' @ op @ '' '' @ pre) @ ''%('' @ pname (i + k) @ '')s'' @ (post @ '')'')"
      unfolding t by simp
    then show ?thesis by blast
  qed
next
  case (LogicalExpr l op r)
  let ?j = "i + num_values l"
  let ?ls = "fst (fst (to_sql l i))" and ?rs = "fst (fst (to_sql r ?j))"
  have t: "fst (fst (to_sql (LogicalExpr l op r) i)) = ''('' @ ?ls @ '' '' @ op @ '' '' @ ?rs @ '')''"
    by (simp add: to_sql_counter)
  show ?case
  proof (cases "k < num_values l")
    case True
    from LogicalExpr.IH(1)[OF True, of i] obtain pre post where
      "?ls = pre @ ''%('' @ pname (i + k) @ '')s'' @ post" by blast
    then have "fst (fst (to_sql (LogicalExpr l op r) i)) =
        (''('' @ pre) @ ''%('' @ pname (i + k) @ '')s'' @ (post @ '' '' @ op @ '' '' @ ?rs @ '')'')"
      unfolding t by simp
    then show ?thesis by blast
  next
    case False
    then have kk: "k - num_values l < num_values r" using LogicalExpr.prems by simp
    have e: "?j + (k - num_values l) = i + k" using False by simp
    from LogicalExpr.IH(2)[OF kk, of ?j] obtain pre post where
      "?rs = pre @ ''%('' @ pname (i + k) @ '')s'' @ post" unfolding e by blast
    then have "fst (fst (to_sql (LogicalExpr l op r) i)) =
        (''('' @ ?ls @ '' '' @ op @ '' '' @ pre) @ ''%('' @ pname (i + k) @ '')s'' @ (post @ '')'')"
      unfolding t by simp
    then show ?thesis by blast
  qed
qed simp_all

lemma bind_int_other: "x \<noteq> pname k \<Longrightarrow> bind_int n k ps x = ps x"
  by (simp add: bind_int_def split: option.splits)

lemma select_binds:
  assumes "k < num_values w"
  shows "snd (fst (select m (Some w) ob lim off i)) (pname (i + k)) = Some (literals w ! k)"
proof -
  let ?k1 = "where_counter (Some w) i"
  have k1: "?k1 = i + num_values w" by (simp add: where_counter_def to_sql_counter)
  have n1: "pname (i + k) \<noteq> pname ?k1"
  proof
    assume "pname (i + k) = pname ?k1"
    then have "i + k = ?k1" by (rule pname_inj)
    with assms k1 show False by simp
  qed
  have n2: "pname (i + k) \<noteq> pname (bump lim ?k1)"
  proof
    assume "pname (i + k) = pname (bump lim ?k1)"
    then have "i + k = bump lim ?k1" by (rule pname_inj)
    with assms k1 bump_le[of ?k1 lim] show False by simp
  qed
  have "snd (fst (select m (Some w) ob lim off i)) (pname (i + k)) =
        bind_int off (bump lim ?k1) (bind_int lim ?k1 (where_params (Some w) i)) (pname (i + k))"
    by (simp add: select_eq)
  also have "\<dots> = bind_int lim ?k1 (where_params (Some w) i) (pname (i + k))"
    using n2 by (rule bind_int_other)
  also have "\<dots> = where_params (Some w) i (pname (i + k))"
    using n1 by (rule bind_int_other)
  also have "\<dots> = Some (literals w ! k)"
    using to_sql_binds[OF assms, of i] by (simp add: where_params_def)
  finally show ?thesis .
qed

lemma select_placeholder_occurs:
  assumes "k < num_values w"
  shows "\<exists>pre post. fst (fst (select m (Some w) ob lim off i)) =
           pre @ ''%('' @ pname (i + k) @ '')s'' @ post"
proof -
  from to_sql_placeholder_occurs[OF assms, of i] obtain pre post where
    p: "fst (fst (to_sql w i)) = pre @ ''%('' @ pname (i + k) @ '')s'' @ post" by blast
  let ?rest = "order_by_clause ob @
       limit_clause '' LIMIT '' lim (where_counter (Some w) i) @
       limit_clause '' OFFSET '' off (bump lim (where_counter (Some w) i))"
  have "fst (fst (select m (Some w) ob lim off i)) =
        (select_head m @ '' WHERE '' @ pre) @ ''%('' @ pname (i + k) @ '')s'' @ (post @ ?rest)"
    by (simp add: select_eq where_clause_def p)
  then show ?thesis by blast
qed

lemma same_shape_num_values:
  "rel_expr (\<lambda>a b. True) e1 e2 \<Longrightarrow> num_values e1 = num_values e2"
  using to_sql_same_shape[of e1 e2 0] by (simp add: to_sql_counter)

lemma bind_int_agree: "ps1 x = ps2 x \<Longrightarrow> bind_int n k ps1 x = bind_int n k ps2 x"
  by (simp add: bind_int_def split: option.splits)

lemma where_params_outside:
  "x \<notin> pname ` {i ..< i + num_values w} \<Longrightarrow> where_params (Some w) i x = None"
proof -
  assume a: "x \<notin> pname ` {i ..< i + num_values w}"
  have d: "dom (snd (fst (to_sql w i))) = pname ` {i ..< i + num_values w}" by (rule to_sql_dom)
  have "x \<notin> dom (snd (fst (to_sql w i)))" unfolding d by (rule a)
  then show ?thesis by (simp add: where_params_def domIff)
qed

lemma select_agree_elsewhere:
  assumes "rel_expr (\<lambda>a b. True) w1 w2"
    and "x \<notin> pname ` {i ..< i + num_values w1}"
  shows "snd (fst (select m (Some w1) ob lim off i)) x = snd (fst (select m (Some w2) ob lim off i)) x"
proof -
  have n: "num_values w1 = num_values w2" using assms(1) by (rule same_shape_num_values)
  have c: "where_counter (Some w1) i = where_counter (Some w2) i"
    by (simp add: where_counter_def to_sql_counter n)
  have "where_params (Some w1) i x = None" using assms(2) by (rule where_params_outside)
  moreover have "where_params (Some w2) i x = None" using assms(2) unfolding n by (rule where_params_outside)
  ultimately have "where_params (Some w1) i x = where_params (Some w2) i x" by simp
  then have "bind_int lim (where_counter (Some w1) i) (where_params (Some w1) i) x =
             bind_int lim (where_counter (Some w1) i) (where_params (Some w2) i) x"
    by (rule bind_int_agree)
  then have "bind_int off (bump lim (where_counter (Some w1) i))
               (bind_int lim (where_counter (Some w1) i) (where_params (Some w1) i)) x =
             bind_int off (bump lim (where_counter (Some w1) i))
               (bind_int lim (where_counter (Some w1) i) (where_params (Some w2) i)) x"
    by (rule bind_int_agree)
  then show ?thesis by (simp add: select_eq c[symmetric])
qed

text \<open>
  C1. The SQL text of \<^verbatim>\<open>Compiler.select\<close> does not depend on the values of the literal
  nodes, and the values are found in the returned parameter map only. Two filter trees
  that differ only in the values of their \<^verbatim>\<open>ValueExpr\<close> nodes compile, with the same model,
  ordering, limit, offset and counter, to the same text and to parameter maps with the
  same names. For the \<open>k\<close>-th literal of a tree, the text holds the placeholder
  \<^verbatim>\<open>%(pN)s\<close> of the name the allocator issues for it (\<open>N\<close> is the starting counter plus
  \<open>k\<close>), and the returned map binds that name to the value of the literal; at every other
  name the two maps agree, so they differ in nothing but these values.
\<close>

theorem select_text_independent_of_literals:
  assumes "rel_expr (\<lambda>a b. True) w1 w2"
  shows "fst (fst (select m (Some w1) ob lim off i)) = fst (fst (select m (Some w2) ob lim off i)) \<and>
     dom (snd (fst (select m (Some w1) ob lim off i))) =
       dom (snd (fst (select m (Some w2) ob lim off i))) \<and>
     length (literals w1) = length (literals w2) \<and>
     (\<forall>k < length (literals w1).
        (\<exists>pre post. fst (fst (select m (Some w1) ob lim off i)) =
           pre @ ''%(p'' @ str_nat (i + k) @ '')s'' @ post) \<and>
        snd (fst (select m (Some w1) ob lim off i)) (''p'' @ str_nat (i + k)) = Some (literals w1 ! k) \<and>
        snd (fst (select m (Some w2) ob lim off i)) (''p'' @ str_nat (i + k)) = Some (literals w2 ! k)) \<and>
     (\<forall>x. x \<notin> (\<lambda>k. ''p'' @ str_nat k) ` {i ..< i + length (literals w1)} \<longrightarrow>
        snd (fst (select m (Some w1) ob lim off i)) x = snd (fst (select m (Some w2) ob lim off i)) x)"
proof -
  have pn: "(\<lambda>k. ''p'' @ str_nat k) = pname" by (rule ext) (simp add: pname_def)
  have e: "\<forall>x. x \<notin> (\<lambda>k. ''p'' @ str_nat k) ` {i ..< i + length (literals w1)} \<longrightarrow>
        snd (fst (select m (Some w1) ob lim off i)) x = snd (fst (select m (Some w2) ob lim off i)) x"
    unfolding pn length_literals using select_agree_elsewhere[OF assms] by blast
  have n: "num_values w1 = num_values w2" using assms by (rule same_shape_num_values)
  have a: "fst (fst (select m (Some w1) ob lim off i)) = fst (fst (select m (Some w2) ob lim off i))"
    using to_sql_same_shape[OF assms, of i] by (simp add: select_eq where_clause_def where_counter_def)
  have b: "dom (snd (fst (select m (Some w1) ob lim off i))) =
       dom (snd (fst (select m (Some w2) ob lim off i)))"
    using to_sql_same_shape[OF assms, of i] by (simp add: select_dom) (simp add: select_eq where_counter_def)
  have c: "length (literals w1) = length (literals w2)" using n by (simp add: length_literals)
  have d: "\<forall>k < length (literals w1).
        (\<exists>pre post. fst (fst (select m (Some w1) ob lim off i)) =
           pre @ ''%(p'' @ str_nat (i + k) @ '')s'' @ post) \<and>
        snd (fst (select m (Some w1) ob lim off i)) (''p'' @ str_nat (i + k)) = Some (literals w1 ! k) \<and>
        snd (fst (select m (Some w2) ob lim off i)) (''p'' @ str_nat (i + k)) = Some (literals w2 ! k)"
  proof (intro allI impI)
    fix k assume "k < length (literals w1)"
    then have k1: "k < num_values w1" and k2: "k < num_values w2" using n by (simp_all add: length_literals)
    show "(\<exists>pre post. fst (fst (select m (Some w1) ob lim off i)) =
           pre @ ''%(p'' @ str_nat (i + k) @ '')s'' @ post) \<and>
        snd (fst (select m (Some w1) ob lim off i)) (''p'' @ str_nat (i + k)) = Some (literals w1 ! k) \<and>
        snd (fst (select m (Some w2) ob lim off i)) (''p'' @ str_nat (i + k)) = Some (literals w2 ! k)"
      using select_placeholder_occurs[OF k1, of m ob lim off i]
        select_binds[OF k1, of m ob lim off i] select_binds[OF k2, of m ob lim off i]
      by (simp add: pname_def)
  qed
  from a b c d e show ?thesis by (intro conjI)
qed

theorem select_text_independent_of_literals_witness:
  "fst (fst (select events_model
       (Some (BinaryExpr (ColumnExpr ''id'') ''='' (ValueExpr (PyStr ''1; DROP TABLE events --''))))
       None (Some 10) None 0)) =
   fst (fst (select events_model
       (Some (BinaryExpr (ColumnExpr ''id'') ''='' (ValueExpr (PyInt 1)))) None (Some 10) None 0)) \<and>
   snd (fst (select events_model
       (Some (BinaryExpr (ColumnExpr ''id'') ''='' (ValueExpr (PyStr ''1; DROP TABLE events --''))))
       None (Some 10) None 0)) ''p0'' = Some (PyStr ''1; DROP TABLE events --'') \<and>
   snd (fst (select events_model
       (Some (BinaryExpr (ColumnExpr ''id'') ''='' (ValueExpr (PyInt 1)))) None (Some 10) None 0)) ''p0'' =
     Some (PyInt 1)"
proof -
  let ?w1 = "BinaryExpr (ColumnExpr ''id'') ''='' (ValueExpr (PyStr ''1; DROP TABLE events --''))"
  let ?w2 = "BinaryExpr (ColumnExpr ''id'') ''='' (ValueExpr (PyInt 1))"
  have r: "rel_expr (\<lambda>a b. True) ?w1 ?w2" by simp
  have s: "str_nat (0 + 0) = ''0''" by (simp add: str_nat.simps digit_char_def)
  have l: "(0::nat) < length (literals ?w1)" by simp
  note t = select_text_independent_of_literals[OF r, where m = events_model and ob = None
      and lim = "Some 10" and off = None and i = 0]
  from t have a: "fst (fst (select events_model (Some ?w1) None (Some 10) None 0)) =
      fst (fst (select events_model (Some ?w2) None (Some 10) None 0))" by (rule conjunct1)
  from t have d: "\<forall>k < length (literals ?w1).
        (\<exists>pre post. fst (fst (select events_model (Some ?w1) None (Some 10) None 0)) =
           pre @ ''%(p'' @ str_nat (0 + k) @ '')s'' @ post) \<and>
        snd (fst (select events_model (Some ?w1) None (Some 10) None 0)) (''p'' @ str_nat (0 + k)) =
          Some (literals ?w1 ! k) \<and>
        snd (fst (select events_model (Some ?w2) None (Some 10) None 0)) (''p'' @ str_nat (0 + k)) =
          Some (literals ?w2 ! k)"
    by (rule conjunct1[OF conjunct2[OF conjunct2[OF conjunct2]]])
  note d0 = d[rule_format, OF l, THEN conjunct2]
  from d0 have b1: "snd (fst (select events_model (Some ?w1) None (Some 10) None 0)) ''p0'' =
          Some (PyStr ''1; DROP TABLE events --'')"
    unfolding s by simp
  from d0 have b2: "snd (fst (select events_model (Some ?w2) None (Some 10) None 0)) ''p0'' = Some (PyInt 1)"
    unfolding s by simp
  from a b1 b2 show ?thesis by (intro conjI)
qed

section \<open>Properties of the type parser, the count statement and the DDL renderer\<close>

lemma strip_all_space: "list_all isspace t \<Longrightarrow> strip t = []"
proof -
  assume "list_all isspace t"
  then have "dropWhile isspace t = []" by (simp add: list_all_iff)
  then show ?thesis by (simp only: strip_def rev.simps dropWhile.simps)
qed

lemma parse_leaf_Nil: "parse_leaf [] = Inl IndexError"
  by (simp add: parse_leaf_def RE_DECIMAL_def RE_FIXED_def RE_DT64_def one_arg_def split_def lower_def)

lemma RE_WRAP1_Nil: "RE_WRAP1 [] = None"
  by (simp add: RE_WRAP1_def)

text \<open>
  C3. On the empty string, and on any string of whitespace only, \<^verbatim>\<open>_parse_ch_type\<close> does
  not return the text type: no regular expression matches, the lower-cased text has no
  word, and \<^verbatim>\<open>key.split()[0]\<close> raises \<^verbatim>\<open>IndexError\<close>.
\<close>

theorem parse_ch_type_blank_raises:
  "list_all isspace t \<Longrightarrow> parse_ch_type t = Inl IndexError"
  by (simp add: parse_ch_type.simps strip_all_space RE_WRAP1_Nil parse_leaf_Nil)

theorem parse_ch_type_blank_raises_witness:
  "parse_ch_type [] = Inl IndexError \<and> parse_ch_type ''  '' = Inl IndexError"
  using parse_ch_type_blank_raises[of "[]"] parse_ch_type_blank_raises[of "''  ''"]
  by (simp add: isspace_def)

text \<open>
  C7 (amended). \<^verbatim>\<open>Query.count\<close> wraps, under a row count, the SELECT compiled from the
  query's model, filter tree and ordering with no LIMIT and no OFFSET clause, and uses the
  parameter map of that SELECT unchanged; for a query with neither limit nor offset this
  is the SELECT that \<^verbatim>\<open>Query.all\<close> compiles.
\<close>

theorem Query_count_drops_limit_offset:
  "Query_count q = count_wrap (Query_all (q\<lparr>q_limit := None, q_offset := None\<rparr>)) \<and>
   (q_limit q = None \<and> q_offset q = None \<longrightarrow> Query_count q = count_wrap (Query_all q))"
  by (simp add: Query_count_def Query_all_def count_wrap_def split: prod.splits)

theorem Query_count_drops_limit_offset_witness:
  "Query_count (Query events_model) = count_wrap (Query_all (Query events_model))"
  using Query_count_drops_limit_offset[of "Query events_model"]
  by (simp add: Query_def)

text \<open>With a limit set, the count statement is not the wrapped SELECT of the query.\<close>

theorem Query_count_limit_counterexample:
  "Query_count (Query_limit (Query events_model) 10) \<noteq>
   count_wrap (Query_all (Query_limit (Query events_model) 10))"
  by (simp add: Query_count_def Query_all_def count_wrap_def Query_limit_def Query_def select_def
       order_by_clause_def add_param_def split: prod.splits)

text \<open>
  C8. For a model with the columns \<^verbatim>\<open>id\<close> and \<^verbatim>\<open>ts\<close> and no \<^verbatim>\<open>__order_by__\<close>,
  \<^verbatim>\<open>create_table_from_model\<close> renders a statement with no ORDER BY clause, while
  \<^verbatim>\<open>create_table\<close> on the same columns with no \<^verbatim>\<open>order_by\<close> renders the default
  \<^verbatim>\<open>ORDER BY ("id")\<close>.
\<close>

theorem create_table_from_model_no_order_by:
  "create_table_from_model events_model True =
     Inr (''CREATE TABLE IF NOT EXISTS '' @ [CHR 0x22] @ ''events'' @ [CHR 0x22] @ ''\<newline>(\<newline>  '' @
          [CHR 0x22] @ ''id'' @ [CHR 0x22] @ '' UInt64,\<newline>  '' @
          [CHR 0x22] @ ''ts'' @ [CHR 0x22] @ '' DateTime64(3)\<newline>\<newline>)\<newline>ENGINE = MergeTree'') \<and>
   create_table ''events'' [(''id'', TypeOf UInt64), (''ts'', TypeOf (DateTime64 3))] default_args =
     Inr (''CREATE TABLE IF NOT EXISTS '' @ [CHR 0x22] @ ''events'' @ [CHR 0x22] @ ''\<newline>(\<newline>  '' @
          [CHR 0x22] @ ''id'' @ [CHR 0x22] @ '' UInt64,\<newline>  '' @
          [CHR 0x22] @ ''ts'' @ [CHR 0x22] @ '' DateTime64(3)\<newline>\<newline>)\<newline>ENGINE = MergeTree\<newline>ORDER BY ('' @
          [CHR 0x22] @ ''id'' @ [CHR 0x22] @ '')'')"
  by code_simp

text \<open>
  C9 (amended). \<^verbatim>\<open>create_table\<close> with an empty column mapping and no \<^verbatim>\<open>order_by\<close> raises
  (\<^verbatim>\<open>StopIteration\<close>, from the default of the ordering key) whatever the other arguments
  are, and \<^verbatim>\<open>InsertBuilder.compile\<close> with no sources raises (\<^verbatim>\<open>AssertionError\<close>) whatever
  the other fields are.
\<close>

theorem empty_inputs_raise:
  "(a_order_by args = None \<longrightarrow> create_table name [] args = Inl StopIteration) \<and>
   (ib_sources b = [] \<longrightarrow> compile b = Inl AssertionError)"
  by (simp add: create_table_def resolve_order_by_def cols_lower_def compile_def)

theorem empty_inputs_raise_witness:
  "create_table ''t'' [] default_args = Inl StopIteration \<and>
   compile (InsertBuilder (TargetName ''t'')) = Inl AssertionError"
  using empty_inputs_raise[where args = default_args and b = "InsertBuilder (TargetName ''t'')"
      and name = "''t''"]
  by (simp add: default_args_def InsertBuilder_def)

text \<open>With an ordering key given, an empty column mapping raises nothing: a statement
  with an empty column list is rendered.\<close>

theorem create_table_empty_columns_counterexample:
  "create_table ''t'' [] (default_args\<lparr>a_order_by := Some [''x'']\<rparr>) =
     Inr (''CREATE TABLE IF NOT EXISTS '' @ [CHR 0x22] @ ''t'' @ [CHR 0x22] @
          ''\<newline>(\<newline>  \<newline>\<newline>)\<newline>ENGINE = MergeTree\<newline>ORDER BY ('' @ [CHR 0x22] @ ''x'' @ [CHR 0x22] @ '')'')"
  by code_simp

section \<open>Placeholders and parameter maps\<close>

lemma placeholders_skip: "no_pct a \<Longrightarrow> placeholders (a @ b) = placeholders b"
  by (induction a) (auto simp: no_pct_def)

lemma takeWhile_until: "c \<notin> set n \<Longrightarrow> takeWhile (\<lambda>x. x \<noteq> c) (n @ c # b) = n"
  by (induction n) auto

lemma dropWhile_until: "c \<notin> set n \<Longrightarrow> dropWhile (\<lambda>x. x \<noteq> c) (n @ c # b) = c # b"
  by (induction n) auto

lemma placeholder_at_name:
  "CHR '')'' \<notin> set n \<Longrightarrow> placeholder_at (''('' @ n @ '')s'' @ b) = Some n"
  by (simp add: placeholder_at_def dropWhile_until takeWhile_until)

lemma no_pct_append [simp]: "no_pct (a @ b) = (no_pct a \<and> no_pct b)"
  by (auto simp: no_pct_def)

lemma no_pct_Cons [simp]: "no_pct (c # b) = (c \<noteq> CHR ''%'' \<and> no_pct b)"
  by (auto simp: no_pct_def)

lemma no_pct_Nil [simp]: "no_pct []"
  by (simp add: no_pct_def)

lemma pname_chars: "CHR '')'' \<notin> set (pname k) \<and> no_pct (pname k)"
  using str_nat_no_char[of "CHR '')''" k] str_nat_no_char[of "CHR ''%''" k]
  by (simp add: pname_def no_pct_def isdigit_def)

lemma placeholders_param:
  "placeholders (''%('' @ pname k @ '')s'' @ b) = pname k # placeholders b"
proof -
  have "placeholders (''%('' @ pname k @ '')s'' @ b) =
        pname k # placeholders ((''('' @ pname k @ '')s'') @ b)"
    using placeholder_at_name[of "pname k" b] pname_chars[of k] by simp
  also have "placeholders ((''('' @ pname k @ '')s'') @ b) = placeholders b"
    using pname_chars[of k] by (intro placeholders_skip) simp
  finally show ?thesis .
qed


lemma set_strip_any_quotes: "set (strip_any_quotes n) \<subseteq> set n"
proof -
  have "set (butlast (tl (strip n))) \<subseteq> set (strip n)"
    by (cases "strip n") (auto dest: in_set_butlastD)
  then have "set (spec_strip_layer (strip n)) \<subseteq> set (strip n)"
    by (simp add: spec_strip_layer_def)
  then show ?thesis using set_strip[of n] by (simp only: strip_any_quotes_spec)
qed

lemma no_pct_quote_ident: "no_pct n \<Longrightarrow> no_pct (quote_ident n)"
  using set_strip_any_quotes[of n]
  by (auto simp: quote_ident_def no_pct_def replace_char_def split: if_splits)

lemma no_pct_join: "no_pct sep \<Longrightarrow> list_all no_pct xs \<Longrightarrow> no_pct (join sep xs)"
  by (induction sep xs rule: join.induct) simp_all

lemma no_pct_subset: "set a \<subseteq> set b \<Longrightarrow> no_pct b \<Longrightarrow> no_pct a"
  by (auto simp: no_pct_def)

lemma set_tl_subset: "set (tl xs) \<subseteq> set xs"
  by (cases xs) auto

lemma no_pct_render_table_name: "no_pct n \<Longrightarrow> no_pct (render_table_name n)"
proof -
  assume n: "no_pct n"
  have s: "no_pct (strip n)" using set_strip n by (rule no_pct_subset)
  have "set (takeWhile (\<lambda>c. c \<noteq> CHR ''.'') (strip n)) \<subseteq> set (strip n)"
    by (rule subsetI) (erule set_takeWhileD[THEN conjunct1])
  then have a: "no_pct (takeWhile (\<lambda>c. c \<noteq> CHR ''.'') (strip n))"
    using s by (rule no_pct_subset)
  have "set (dropWhile (\<lambda>c. c \<noteq> CHR ''.'') (strip n)) \<subseteq> set (strip n)"
    by (rule subsetI) (erule set_dropWhileD)
  with set_tl_subset have "set (tl (dropWhile (\<lambda>c. c \<noteq> CHR ''.'') (strip n))) \<subseteq> set (strip n)"
    by (rule subset_trans)
  then have b: "no_pct (tl (dropWhile (\<lambda>c. c \<noteq> CHR ''.'') (strip n)))"
    using s by (rule no_pct_subset)
  have qa: "no_pct (quote_ident (takeWhile (\<lambda>c. c \<noteq> CHR ''.'') (strip n)))"
    using a by (rule no_pct_quote_ident)
  have qb: "no_pct (quote_ident (tl (dropWhile (\<lambda>c. c \<noteq> CHR ''.'') (strip n))))"
    using b by (rule no_pct_quote_ident)
  have qs: "no_pct (quote_ident (strip n))"
    using s by (rule no_pct_quote_ident)
  show ?thesis
    unfolding render_table_name_def split_first_dot_def Let_def
    using qa qb qs by simp
qed

lemma no_pct_quoted_columns:
  "list_all (\<lambda>c. no_pct (col_name (snd c))) cols \<Longrightarrow>
   list_all no_pct (map (\<lambda>c. quote_ident (col_name c)) (map snd cols))"
  by (induction cols) (simp_all add: no_pct_quote_ident)

lemma no_pct_select_head:
  "no_pct (m_table m) \<Longrightarrow> list_all (\<lambda>c. no_pct (col_name (snd c))) (m_columns m) \<Longrightarrow>
   no_pct (select_head m)"
proof -
  assume t: "no_pct (m_table m)" and c: "list_all (\<lambda>c. no_pct (col_name (snd c))) (m_columns m)"
  have sep: "no_pct '', ''" by simp
  have "list_all no_pct (map (\<lambda>c. quote_ident (col_name c)) (map snd (m_columns m)))"
    using c by (rule no_pct_quoted_columns)
  with sep have j: "no_pct (join '', '' (map (\<lambda>c. quote_ident (col_name c)) (map snd (m_columns m))))"
    by (rule no_pct_join)
  have r: "no_pct (render_table_name (m_table m))" using t by (rule no_pct_render_table_name)
  show ?thesis unfolding select_head_def Let_def using j r by simp
qed

lemma no_pct_order_parts:
  "list_all (\<lambda>(c, d). no_pct c \<and> no_pct d) obs \<Longrightarrow>
   list_all no_pct (map (\<lambda>(col, direction). quote_ident col @ '' '' @ direction) obs)"
  by (induction obs) (auto simp: no_pct_quote_ident)

lemma no_pct_order_by_clause:
  "(case ob of None \<Rightarrow> True | Some obs \<Rightarrow> list_all (\<lambda>(c, d). no_pct c \<and> no_pct d) obs) \<Longrightarrow>
   no_pct (order_by_clause ob)"
proof (cases ob)
  case None then show ?thesis by (simp add: order_by_clause_def)
next
  case (Some obs)
  assume "case ob of None \<Rightarrow> True | Some obs \<Rightarrow> list_all (\<lambda>(c, d). no_pct c \<and> no_pct d) obs"
  then have "list_all (\<lambda>(c, d). no_pct c \<and> no_pct d) obs" using Some by simp
  then have "list_all no_pct (map (\<lambda>(col, direction). quote_ident col @ '' '' @ direction) obs)"
    by (rule no_pct_order_parts)
  moreover have "no_pct '', ''" by simp
  ultimately have "no_pct (join '', '' (map (\<lambda>(col, direction). quote_ident col @ '' '' @ direction) obs))"
    by (intro no_pct_join)
  then show ?thesis using Some by (simp add: order_by_clause_def)
qed

lemma upt_add_split: "[i ..< i + (a + b)] = [i ..< i + a] @ [i + a ..< i + a + b]" for i a b :: nat
  by (metis add.assoc le_add1 upt_add_eq_append)

lemma to_sql_placeholders:
  "expr_no_pct e \<Longrightarrow>
   placeholders (fst (fst (to_sql e i)) @ rest) = map pname [i ..< i + num_values e] @ placeholders rest"
proof (induction e arbitrary: i rest)
  case (ColumnExpr c)
  then show ?case by (simp add: placeholders_skip no_pct_quote_ident)
next
  case (ValueExpr v)
  show ?case using placeholders_param[of i rest] by simp
next
  case (BinaryExpr l op r)
  let ?j = "snd (to_sql l i)"
  let ?ls = "fst (fst (to_sql l i))" and ?rs = "fst (fst (to_sql r ?j))"
  from BinaryExpr.prems have pl: "expr_no_pct l" and po: "no_pct op" and pr: "expr_no_pct r" by simp_all
  have "placeholders (fst (fst (to_sql (BinaryExpr l op r) i)) @ rest) =
        placeholders (''('' @ (?ls @ ((('' '' @ op @ '' '') @ (?rs @ ('')'' @ rest))))))"
    by simp
  also have "\<dots> = placeholders (?ls @ ((('' '' @ op @ '' '') @ (?rs @ ('')'' @ rest)))))"
    by (rule placeholders_skip) simp
  also have "\<dots> = map pname [i ..< i + num_values l] @ placeholders (('' '' @ op @ '' '') @ (?rs @ ('')'' @ rest)))"
    using pl by (rule BinaryExpr.IH(1))
  also have "placeholders (('' '' @ op @ '' '') @ (?rs @ ('')'' @ rest))) = placeholders (?rs @ ('')'' @ rest))"
    using po by (intro placeholders_skip) simp
  also have "\<dots> = map pname [?j ..< ?j + num_values r] @ placeholders ('')'' @ rest)"
    using pr by (rule BinaryExpr.IH(2))
  also have "placeholders ('')'' @ rest) = placeholders rest"
    by (rule placeholders_skip) simp
  finally show ?case by (simp add: to_sql_counter upt_add_split)
next
  case (LogicalExpr l op r)
  let ?j = "snd (to_sql l i)"
  let ?ls = "fst (fst (to_sql l i))" and ?rs = "fst (fst (to_sql r ?j))"
  from LogicalExpr.prems have pl: "expr_no_pct l" and po: "no_pct op" and pr: "expr_no_pct r" by simp_all
  have "placeholders (fst (fst (to_sql (LogicalExpr l op r) i)) @ rest) =
        placeholders (''('' @ (?ls @ ((('' '' @ op @ '' '') @ (?rs @ ('')'' @ rest))))))"
    by simp
  also have "\<dots> = placeholders (?ls @ ((('' '' @ op @ '' '') @ (?rs @ ('')'' @ rest)))))"
    by (rule placeholders_skip) simp
  also have "\<dots> = map pname [i ..< i + num_values l] @ placeholders (('' '' @ op @ '' '') @ (?rs @ ('')'' @ rest)))"
    using pl by (rule LogicalExpr.IH(1))
  also have "placeholders (('' '' @ op @ '' '') @ (?rs @ ('')'' @ rest))) = placeholders (?rs @ ('')'' @ rest))"
    using po by (intro placeholders_skip) simp
  also have "\<dots> = map pname [?j ..< ?j + num_values r] @ placeholders ('')'' @ rest)"
    using pr by (rule LogicalExpr.IH(2))
  also have "placeholders ('')'' @ rest) = placeholders rest"
    by (rule placeholders_skip) simp
  finally show ?case by (simp add: to_sql_counter upt_add_split)
next
  case (Raw s)
  then show ?case by (simp add: placeholders_skip)
qed

lemma limit_clause_placeholders:
  "no_pct kw \<Longrightarrow> placeholders (limit_clause kw n k @ rest) = map pname [k ..< bump n k] @ placeholders rest"
proof (cases n)
  case None then show ?thesis by (simp add: limit_clause_def bump_def)
next
  case (Some v)
  assume "no_pct kw"
  then have "placeholders (kw @ (''%('' @ pname k @ '')s'' @ rest)) = placeholders (''%('' @ pname k @ '')s'' @ rest)"
    by (rule placeholders_skip)
  then show ?thesis using Some placeholders_param[of k rest] by (simp add: limit_clause_def bump_def)
qed

lemma where_clause_placeholders:
  "(case w of None \<Rightarrow> True | Some e \<Rightarrow> expr_no_pct e) \<Longrightarrow>
   placeholders (where_clause w i @ rest) = map pname [i ..< where_counter w i] @ placeholders rest"
proof (cases w)
  case None then show ?thesis by (simp add: where_clause_def where_counter_def)
next
  case (Some e)
  assume "case w of None \<Rightarrow> True | Some e \<Rightarrow> expr_no_pct e"
  then have e: "expr_no_pct e" using Some by simp
  have "placeholders ('' WHERE '' @ (fst (fst (to_sql e i)) @ rest)) = placeholders (fst (fst (to_sql e i)) @ rest)"
    by (rule placeholders_skip) simp
  then show ?thesis using Some to_sql_placeholders[OF e, of i rest]
    by (simp add: where_clause_def where_counter_def to_sql_counter)
qed

lemma upt_chain: "i \<le> j \<Longrightarrow> j \<le> k \<Longrightarrow> [i ..< j] @ [j ..< k] = [i ..< k]" for i j k :: nat
  by (metis le_Suc_ex upt_add_eq_append)

lemma select_placeholders:
  assumes "select_no_pct m w ob"
  shows "placeholders (fst (fst (select m w ob lim off i))) = map pname [i ..< snd (select m w ob lim off i)]"
proof -
  let ?k1 = "where_counter w i"
  let ?k2 = "bump lim ?k1"
  let ?k3 = "bump off ?k2"
  from assms have h: "no_pct (select_head m)" and o: "no_pct (order_by_clause ob)"
    and w: "case w of None \<Rightarrow> True | Some e \<Rightarrow> expr_no_pct e"
    by (simp_all add: select_no_pct_def no_pct_select_head no_pct_order_by_clause)
  have "placeholders (fst (fst (select m w ob lim off i))) =
        placeholders (select_head m @ (where_clause w i @ (order_by_clause ob @
          (limit_clause '' LIMIT '' lim ?k1 @ (limit_clause '' OFFSET '' off ?k2 @ [])))))"
    by (simp add: select_eq)
  also have "\<dots> = placeholders (where_clause w i @ (order_by_clause ob @
          (limit_clause '' LIMIT '' lim ?k1 @ (limit_clause '' OFFSET '' off ?k2 @ []))))"
    using h by (rule placeholders_skip)
  also have "\<dots> = map pname [i ..< ?k1] @ placeholders (order_by_clause ob @
          (limit_clause '' LIMIT '' lim ?k1 @ (limit_clause '' OFFSET '' off ?k2 @ [])))"
    using w by (rule where_clause_placeholders)
  also have "placeholders (order_by_clause ob @
          (limit_clause '' LIMIT '' lim ?k1 @ (limit_clause '' OFFSET '' off ?k2 @ []))) =
        placeholders (limit_clause '' LIMIT '' lim ?k1 @ (limit_clause '' OFFSET '' off ?k2 @ []))"
    using o by (rule placeholders_skip)
  also have "\<dots> = map pname [?k1 ..< ?k2] @ placeholders (limit_clause '' OFFSET '' off ?k2 @ [])"
    by (rule limit_clause_placeholders) simp
  also have "placeholders (limit_clause '' OFFSET '' off ?k2 @ []) = map pname [?k2 ..< ?k3] @ placeholders []"
    by (rule limit_clause_placeholders) simp
  finally have "placeholders (fst (fst (select m w ob lim off i))) =
      map pname ([i ..< ?k1] @ [?k1 ..< ?k2] @ [?k2 ..< ?k3])" by simp
  moreover have "[i ..< ?k1] @ [?k1 ..< ?k2] @ [?k2 ..< ?k3] = [i ..< ?k3]"
    using where_counter_le[of i w] bump_le[of ?k1 lim] bump_le[of ?k2 off]
    by (simp add: upt_chain)
  ultimately show ?thesis by (simp add: select_eq)
qed

text \<open>
  C10 (amended). When the text fragments that \<^verbatim>\<open>Compiler.select\<close> takes over as they are
  hold no \<^verbatim>\<open>%\<close> character, the placeholder names that occur in the compiled statement
  are exactly the keys of the returned parameter map, no name occurs twice, and they are
  the names the allocator issued in this compilation, in order: from the counter the
  compilation started with up to the counter it ended with.
\<close>

theorem select_placeholders_are_params:
  assumes "select_no_pct m w ob"
  shows "set (placeholders (fst (fst (select m w ob lim off i)))) = dom (snd (fst (select m w ob lim off i))) \<and>
         distinct (placeholders (fst (fst (select m w ob lim off i)))) \<and>
         placeholders (fst (fst (select m w ob lim off i))) =
           map (\<lambda>k. ''p'' @ str_nat k) [i ..< snd (select m w ob lim off i)]"
proof -
  have inj: "inj_on pname (set [i ..< snd (select m w ob lim off i)])"
    by (rule inj_onI) (rule pname_inj)
  have p: "pname = (\<lambda>k. ''p'' @ str_nat k)" by (rule ext) (simp add: pname_def)
  show ?thesis
    using select_placeholders[OF assms, of lim off i] inj
    by (simp add: select_dom distinct_map) (simp add: p)
qed

theorem select_placeholders_are_params_witness:
  "placeholders (fst (Query_all (Query_limit (Query_filter (Query events_model)
      (ExprArg (BinaryExpr (ColumnExpr ''id'') ''='' (ValueExpr (PyInt 5))))) 10))) = [''p0'', ''p1''] \<and>
   dom (snd (Query_all (Query_limit (Query_filter (Query events_model)
      (ExprArg (BinaryExpr (ColumnExpr ''id'') ''='' (ValueExpr (PyInt 5))))) 10))) = {''p0'', ''p1''}"
proof -
  let ?w = "Some (BinaryExpr (ColumnExpr ''id'') ''='' (ValueExpr (PyInt 5)))"
  let ?s = "select events_model ?w None (Some 10) None 0"
  have h: "select_no_pct events_model ?w None"
    by (simp add: select_no_pct_def events_model_def)
  have c: "snd ?s = 2"
    by (simp add: select_eq where_counter_def bump_def)
  have u: "[0 ..< 2] = [0, Suc 0]" by (simp add: upt_rec)
  have s: "str_nat 0 = ''0''" "str_nat (Suc 0) = ''1''" by (simp_all add: str_nat.simps digit_char_def)
  have q: "Query_all (Query_limit (Query_filter (Query events_model)
      (ExprArg (BinaryExpr (ColumnExpr ''id'') ''='' (ValueExpr (PyInt 5))))) 10) = fst ?s"
    by (simp add: Query_all_def Query_limit_def Query_filter_def Query_def)
  from select_placeholders_are_params[OF h, of "Some 10" None 0]
  have 1: "set (placeholders (fst (fst ?s))) = dom (snd (fst ?s))"
    and 2: "placeholders (fst (fst ?s)) = map (\<lambda>k. ''p'' @ str_nat k) [0 ..< snd ?s]"
    by blast+
  from 2 have 3: "placeholders (fst (fst ?s)) = [''p0'', ''p1'']" by (simp add: c u s)
  from 1 3 have "dom (snd (fst ?s)) = {''p0'', ''p1''}" by simp
  with 3 show ?thesis by (simp only: q)
qed

text \<open>A raw filter fragment can hold a placeholder of its own, which is bound in no
  parameter map.\<close>

theorem raw_placeholder_counterexample:
  "set (placeholders (fst (fst (select events_model (Some (Raw ''id = %(zz)s'')) None None None 0)))) \<noteq>
   dom (snd (fst (select events_model (Some (Raw ''id = %(zz)s'')) None None None 0)))"
proof -
  have "no_pct (select_head events_model)"
    by (rule no_pct_select_head) (simp_all add: events_model_def)
  then have "placeholders (select_head events_model @ '' WHERE id = %(zz)s'') =
             placeholders '' WHERE id = %(zz)s''"
    by (rule placeholders_skip)
  then show ?thesis
    by (simp add: select_eq where_clause_def where_counter_def where_params_def limit_clause_def
        bump_def bind_int_def order_by_clause_def placeholder_at_def)
qed

section \<open>Filter chains\<close>

lemma filter_chain_where:
  "q_where q = Some w \<Longrightarrow>
   foldl Query_filter q (map ExprArg es) = q\<lparr>q_where := Some (and_tree w es)\<rparr>"
proof (induction es arbitrary: q w)
  case Nil
  then show ?case by (simp add: and_tree_def)
next
  case (Cons e es)
  have "q_where (Query_filter q (ExprArg e)) = Some (LogicalExpr w ''AND'' e)"
    using Cons.prems by (simp add: Query_filter_def)
  from Cons.IH[OF this] show ?case using Cons.prems
    by (simp add: and_tree_def Query_filter_def)
qed

lemma filter_chain_fresh:
  "foldl Query_filter (Query m) (map ExprArg (e # es)) = (Query m)\<lparr>q_where := Some (and_tree e es)\<rparr>"
proof -
  have "q_where (Query_filter (Query m) (ExprArg e)) = Some e"
    by (simp add: Query_filter_def Query_def)
  from filter_chain_where[OF this, of es] show ?thesis
    by (simp add: Query_filter_def Query_def)
qed

lemma and_tree_to_sql:
  "fst (fst (to_sql (and_tree w es) i)) =
     foldl (\<lambda>acc t. ''('' @ acc @ '' AND '' @ t @ '')'') (fst (fst (to_sql w i)))
       (pred_texts (snd (to_sql w i)) es)"
proof (induction es arbitrary: w)
  case Nil
  then show ?case by (simp add: and_tree_def)
next
  case (Cons e es)
  have "and_tree w (e # es) = and_tree (LogicalExpr w ''AND'' e) es" by (simp add: and_tree_def)
  then show ?case using Cons.IH[of "LogicalExpr w ''AND'' e"] by simp
qed

lemma and_tree_num_values: "num_values (and_tree w es) = num_values w + sum_list (map num_values es)"
  by (induction es arbitrary: w) (simp_all add: and_tree_def)

lemma sum_list_ones: "list_all (\<lambda>e. num_values e = 1) es \<Longrightarrow> sum_list (map num_values es) = length es"
  by (induction es) simp_all

lemma pred_texts_nth:
  "list_all (\<lambda>e. num_values e = 1) es \<Longrightarrow>
   pred_texts i es = map (\<lambda>k. fst (fst (to_sql (es ! k) (i + k)))) [0 ..< length es]"
proof (induction es arbitrary: i)
  case Nil
  then show ?case by simp
next
  case (Cons e es)
  then have e: "num_values e = 1" and es: "list_all (\<lambda>e. num_values e = 1) es" by simp_all
  have "pred_texts i (e # es) = fst (fst (to_sql e i)) # pred_texts (Suc i) es"
    by (simp add: to_sql_counter e)
  also have "pred_texts (Suc i) es = map (\<lambda>k. fst (fst (to_sql (es ! k) (Suc i + k)))) [0 ..< length es]"
    using es by (rule Cons.IH)
  finally show ?case by (simp add: map_upt_Suc del: upt_Suc)
qed

text \<open>
  C6. Calling \<^verbatim>\<open>Query.filter\<close> on a new query with \<open>N \<ge> 1\<close> predicates that each hold one
  literal, and compiling: the filter tree is the left-nested AND tree of the predicates
  in call order, the WHERE clause is the left-nested chain of AND groups over the texts
  of the predicates, the \<open>k\<close>-th compiled with the counter \<open>k\<close>, and the parameter map has
  exactly the \<open>N\<close> names \<^verbatim>\<open>p0\<close> to \<^verbatim>\<open>p(N-1)\<close>.
\<close>

theorem filter_chain_and_groups:
  assumes "preds \<noteq> []" and "list_all (\<lambda>e. num_values e = 1) preds"
  shows "q_where (foldl Query_filter (Query m) (map ExprArg preds)) =
           Some (foldl (\<lambda>w e. LogicalExpr w ''AND'' e) (hd preds) (tl preds)) \<and>
         fst (Query_all (foldl Query_filter (Query m) (map ExprArg preds))) =
           select_head m @ '' WHERE '' @
           and_chain (map (\<lambda>k. fst (fst (to_sql (preds ! k) k))) [0 ..< length preds]) \<and>
         dom (snd (Query_all (foldl Query_filter (Query m) (map ExprArg preds)))) =
           (\<lambda>k. ''p'' @ str_nat k) ` {0 ..< length preds} \<and>
         card (dom (snd (Query_all (foldl Query_filter (Query m) (map ExprArg preds))))) = length preds"
proof -
  from assms(1) obtain e es where p: "preds = e # es" by (cases preds) auto
  from assms(2) p have e: "num_values e = 1" and es: "list_all (\<lambda>e. num_values e = 1) es" by simp_all
  let ?q = "foldl Query_filter (Query m) (map ExprArg preds)"
  have q: "?q = (Query m)\<lparr>q_where := Some (and_tree e es)\<rparr>"
    unfolding p by (rule filter_chain_fresh)
  have n: "snd (to_sql (and_tree e es) 0) = length preds"
    by (simp add: to_sql_counter and_tree_num_values e sum_list_ones[OF es] p)
  have pn: "pname = (\<lambda>k. ''p'' @ str_nat k)" by (rule ext) (simp add: pname_def)
  have 1: "q_where ?q = Some (foldl (\<lambda>w e. LogicalExpr w ''AND'' e) (hd preds) (tl preds))"
    unfolding q by (simp add: and_tree_def p)
  have t: "map (\<lambda>k. fst (fst (to_sql (preds ! k) k))) [0 ..< length preds] =
           fst (fst (to_sql e 0)) # pred_texts (Suc 0) es"
    unfolding p using pred_texts_nth[OF es, of "Suc 0"] by (simp add: map_upt_Suc del: upt_Suc)
  have 2: "fst (Query_all ?q) = select_head m @ '' WHERE '' @
           and_chain (map (\<lambda>k. fst (fst (to_sql (preds ! k) k))) [0 ..< length preds])"
    unfolding t q
    by (simp add: Query_all_def Query_def select_eq where_clause_def where_counter_def
        order_by_clause_def limit_clause_def bump_def and_tree_to_sql and_chain_def to_sql_counter e)
  have 3: "dom (snd (Query_all ?q)) = pname ` {0 ..< length preds}"
    unfolding q
    by (simp add: Query_all_def Query_def select_dom) (simp add: select_eq where_counter_def bump_def n)
  have "inj_on pname {0 ..< length preds}" by (rule inj_onI) (rule pname_inj)
  then have 4: "card (pname ` {0 ..< length preds}) = length preds" by (simp add: card_image)
  show ?thesis using 1 2 3 4 by (simp add: pn)
qed

lemma select_head_events:
  "select_head events_model =
     ''SELECT '' @ [CHR 0x22] @ ''id'' @ [CHR 0x22] @ '', '' @ [CHR 0x22] @ ''ts'' @ [CHR 0x22] @
     '' FROM '' @ [CHR 0x22] @ ''events'' @ [CHR 0x22]"
  by code_simp

theorem filter_chain_and_groups_witness:
  "fst (Query_all (foldl Query_filter (Query events_model) (map ExprArg [id_eq 5, id_eq 7]))) =
     ''SELECT '' @ [CHR 0x22] @ ''id'' @ [CHR 0x22] @ '', '' @ [CHR 0x22] @ ''ts'' @ [CHR 0x22] @
     '' FROM '' @ [CHR 0x22] @ ''events'' @ [CHR 0x22] @ '' WHERE (('' @
     [CHR 0x22] @ ''id'' @ [CHR 0x22] @ '' = %(p0)s) AND ('' @
     [CHR 0x22] @ ''id'' @ [CHR 0x22] @ '' = %(p1)s))'' \<and>
   card (dom (snd (Query_all (foldl Query_filter (Query events_model)
     (map ExprArg [id_eq 5, id_eq 7]))))) = 2"
proof -
  have a: "[id_eq 5, id_eq 7] \<noteq> []" by simp
  have b: "list_all (\<lambda>e. num_values e = 1) [id_eq 5, id_eq 7]" by (simp add: id_eq_def)
  have u: "[0 ..< 2] = [0, Suc 0]" by (simp add: upt_rec)
  have s: "str_nat 0 = ''0''" "str_nat (Suc 0) = ''1''" by (simp_all add: str_nat.simps digit_char_def)
  have q: "quote_ident ''id'' = [CHR 0x22] @ ''id'' @ [CHR 0x22]" by code_simp
  from filter_chain_and_groups[OF a b, of events_model]
  have 1: "fst (Query_all (foldl Query_filter (Query events_model) (map ExprArg [id_eq 5, id_eq 7]))) =
           select_head events_model @ '' WHERE '' @
           and_chain (map (\<lambda>k. fst (fst (to_sql ([id_eq 5, id_eq 7] ! k) k))) [0 ..< length [id_eq 5, id_eq 7]])"
    and 2: "card (dom (snd (Query_all (foldl Query_filter (Query events_model)
              (map ExprArg [id_eq 5, id_eq 7]))))) = length [id_eq 5, id_eq 7]"
    by blast+
  have 3: "and_chain (map (\<lambda>k. fst (fst (to_sql ([id_eq 5, id_eq 7] ! k) k))) [0 ..< length [id_eq 5, id_eq 7]]) =
       ''(('' @ [CHR 0x22] @ ''id'' @ [CHR 0x22] @ '' = %(p0)s) AND ('' @
     [CHR 0x22] @ ''id'' @ [CHR 0x22] @ '' = %(p1)s))''"
    by (simp add: u and_chain_def id_eq_def pname_def s q)
  show ?thesis using 1 2 by (simp only: 3 select_head_events) simp
qed

section \<open>Rendering and parsing column types\<close>

lemma isspace_not_digit: "isspace c \<Longrightarrow> \<not> isdigit c"
  by (auto simp: isspace_def isdigit_def)

lemma str_nat_nonspace: "list_all nonspace (str_nat n)"
  using str_nat_digits[of n] isspace_not_digit by (auto simp: list_all_iff nonspace_def)

lemma nonspace_alphabet:
  "c \<in> set ''ABCDFILNSTUabcdegilmnorstuwxy()0123456789,'' \<Longrightarrow> nonspace c"
  by (auto simp: nonspace_def isspace_def)

lemma render_type_nonspace: "list_all nonspace (render_type t)"
  by (induction t) (simp_all add: nonspace_alphabet str_nat_nonspace)

lemma render_type_no_space: "c \<in> set (render_type t) \<Longrightarrow> \<not> isspace c"
  using render_type_nonspace[of t] by (simp add: list_all_iff nonspace_def)

lemma render_type_nonempty: "render_type t \<noteq> []"
  by (cases t) simp_all

lemma strip_no_space: "(\<And>c. c \<in> set s \<Longrightarrow> \<not> isspace c) \<Longrightarrow> strip s = s"
proof (rule strip_fix)
  assume h: "\<And>c. c \<in> set s \<Longrightarrow> \<not> isspace c"
  show "s = [] \<or> \<not> isspace (hd s) \<and> \<not> isspace (last s)"
  proof (cases s)
    case Nil then show ?thesis by simp
  next
    case (Cons a as)
    then have "hd s \<in> set s" "last s \<in> set s" by simp_all
    then show ?thesis using h by blast
  qed
qed

lemma strip_render_type: "strip (render_type t) = render_type t"
  by (rule strip_no_space) (rule render_type_no_space)

lemma lower_keywords:
  "lower ''Nullable'' = ''nullable''" "lower ''Array'' = ''array''"
  "lower ''LowCardinality'' = ''lowcardinality''"
  by (simp_all add: lower_def lower_char_def upper_chars_def lower_chars_def)

lemma match_ci_Nullable: "match_alt [''nullable'', ''array'', ''lowcardinality''] (''Nullable('' @ r) = Some (''Nullable'', ''('' @ r)"
  by (simp add: lower_char_def upper_chars_def lower_chars_def)

lemma match_ci_Array: "match_alt [''nullable'', ''array'', ''lowcardinality''] (''Array('' @ r) = Some (''Array'', ''('' @ r)"
  by (simp add: lower_char_def upper_chars_def lower_chars_def)

lemma match_ci_LowCardinality: "match_alt [''nullable'', ''array'', ''lowcardinality''] (''LowCardinality('' @ r) = Some (''LowCardinality'', ''('' @ r)"
  by (simp add: lower_char_def upper_chars_def lower_chars_def)

lemma dot_star_close_render: "dot_star_close (render_type t @ '')'') = Some (render_type t)"
proof -
  have "CHR 0x0A \<notin> set (render_type t)"
    using render_type_no_space[of "CHR 0x0A" t] by (auto simp: isspace_def)
  then show ?thesis by (simp add: dot_star_close_def endswith_def)
qed

lemma skip_ws_paren: "skip_ws (CHR ''('' # r) = CHR ''('' # r"
  by (simp add: skip_ws_def isspace_def)

lemma expect_paren: "expect (CHR ''('') (CHR ''('' # r) = Some r"
  by (simp add: expect_def)

lemma RE_WRAP1_Nullable: "RE_WRAP1 (''Nullable('' @ render_type t @ '')'') = Some (''Nullable'', render_type t)"
  unfolding RE_WRAP1_def match_ci_Nullable
  by (simp add: skip_ws_paren expect_paren dot_star_close_render)

lemma RE_WRAP1_Array: "RE_WRAP1 (''Array('' @ render_type t @ '')'') = Some (''Array'', render_type t)"
  unfolding RE_WRAP1_def match_ci_Array
  by (simp add: skip_ws_paren expect_paren dot_star_close_render)

lemma RE_WRAP1_LowCardinality: "RE_WRAP1 (''LowCardinality('' @ render_type t @ '')'') = Some (''LowCardinality'', render_type t)"
  unfolding RE_WRAP1_def match_ci_LowCardinality
  by (simp add: skip_ws_paren expect_paren dot_star_close_render)

lemma parse_wrapper:
  assumes "RE_WRAP1 (render_type w) = Some (g1, render_type t)"
    and "parse_ch_type (render_type t) = Inr t"
  shows "parse_ch_type (render_type w) =
     (if lower g1 = ''nullable'' then Inr (Nullable t)
      else if lower g1 = ''array'' then Inr (Array t)
      else if lower g1 = ''lowcardinality'' then Inr (LowCardinality t)
      else parse_leaf (render_type w))"
  using assms
  by (subst parse_ch_type.simps) (simp add: strip_render_type Let_def)

lemma parse_simple_leaves:
  "parse_ch_type (render_type Int8) = Inr Int8"
  "parse_ch_type (render_type Int16) = Inr Int16"
  "parse_ch_type (render_type Int32) = Inr Int32"
  "parse_ch_type (render_type Int64) = Inr Int64"
  "parse_ch_type (render_type UInt8) = Inr UInt8"
  "parse_ch_type (render_type UInt16) = Inr UInt16"
  "parse_ch_type (render_type UInt32) = Inr UInt32"
  "parse_ch_type (render_type UInt64) = Inr UInt64"
  "parse_ch_type (render_type Float32) = Inr Float32"
  "parse_ch_type (render_type Float64) = Inr Float64"
  "parse_ch_type (render_type String) = Inr String"
  "parse_ch_type (render_type UUID) = Inr UUID"
  "parse_ch_type (render_type Bool) = Inr Bool"
  "parse_ch_type (render_type Date) = Inr Date"
  "parse_ch_type (render_type Date32) = Inr Date32"
  "parse_ch_type (render_type DateTime) = Inr DateTime"
  by code_simp+

lemma skip_ws_nonspace: "s \<noteq> [] \<Longrightarrow> nonspace (hd s) \<Longrightarrow> skip_ws s = s"
  by (cases s) (simp_all add: skip_ws_def nonspace_def)

lemma skip_ws_str_nat: "skip_ws (str_nat n @ r) = str_nat n @ r"
proof (rule skip_ws_nonspace)
  show "str_nat n @ r \<noteq> []" by (simp add: str_nat_nonempty)
  have "hd (str_nat n @ r) = hd (str_nat n)" by (simp add: str_nat_nonempty)
  moreover have "hd (str_nat n) \<in> set (str_nat n)" by (simp add: str_nat_nonempty)
  ultimately show "nonspace (hd (str_nat n @ r))"
    using str_nat_nonspace[of n] by (simp add: list_all_iff)
qed

lemma takeWhile_digits: "list_all isdigit ds \<Longrightarrow> \<not> isdigit c \<Longrightarrow> takeWhile isdigit (ds @ c # r) = ds"
  by (induction ds) simp_all

lemma dropWhile_digits: "list_all isdigit ds \<Longrightarrow> \<not> isdigit c \<Longrightarrow> dropWhile isdigit (ds @ c # r) = c # r"
  by (induction ds) simp_all

lemma digits1_str_nat: "\<not> isdigit c \<Longrightarrow> digits1 (str_nat n @ c # r) = Some (str_nat n, c # r)"
  by (simp add: digits1_def takeWhile_digits dropWhile_digits str_nat_digits str_nat_nonempty)

lemma skip_ws_punct: "skip_ws (CHR '','' # r) = CHR '','' # r" "skip_ws (CHR '')'' # r) = CHR '')'' # r"
  by (simp_all add: skip_ws_def isspace_def)

lemma expect_punct: "expect (CHR '','') (CHR '','' # r) = Some r" "expect (CHR '')'') (CHR '')'' # r) = Some r"
  by (simp_all add: expect_def)

lemma not_digit_punct: "\<not> isdigit (CHR '','')" "\<not> isdigit (CHR '')'')"
  by (simp_all add: isdigit_def)

lemma one_arg_match:
  "match_ci kw s = Some (CHR ''('' # str_nat n @ '')'') \<Longrightarrow> one_arg kw s = Some (str_nat n)"
  by (simp add: one_arg_def skip_ws_paren expect_paren skip_ws_str_nat digits1_str_nat
      not_digit_punct skip_ws_punct expect_punct)

lemma RE_DECIMAL_render:
  "RE_DECIMAL (render_type (Decimal p sc)) = Some (str_nat p, str_nat sc)"
proof -
  have "match_ci ''decimal'' (render_type (Decimal p sc)) =
        Some (CHR ''('' # str_nat p @ CHR '','' # str_nat sc @ '')'')"
    by (simp add: lower_char_def upper_chars_def lower_chars_def)
  then show ?thesis
    by (simp add: RE_DECIMAL_def skip_ws_paren expect_paren skip_ws_str_nat digits1_str_nat
        not_digit_punct skip_ws_punct expect_punct)
qed

lemma no_wrapper_leaves:
  "RE_WRAP1 (render_type (Decimal p sc)) = None"
  "RE_WRAP1 (render_type (FixedString n)) = None"
  "RE_WRAP1 (render_type (DateTime64 n)) = None"
  by (simp_all add: RE_WRAP1_def lower_char_def upper_chars_def lower_chars_def)

lemma parse_Decimal: "parse_ch_type (render_type (Decimal p sc)) = Inr (Decimal p sc)"
  by (subst parse_ch_type.simps)
     (simp add: strip_render_type no_wrapper_leaves parse_leaf_def RE_DECIMAL_render
        int_of_digits_str_nat del: render_type.simps)

lemma parse_FixedString: "parse_ch_type (render_type (FixedString n)) = Inr (FixedString n)"
proof -
  have d: "RE_DECIMAL (render_type (FixedString n)) = None"
    by (simp add: RE_DECIMAL_def lower_char_def upper_chars_def lower_chars_def)
  have "match_ci ''fixedstring'' (render_type (FixedString n)) = Some (CHR ''('' # str_nat n @ '')'')"
    by (simp add: lower_char_def upper_chars_def lower_chars_def)
  then have f: "RE_FIXED (render_type (FixedString n)) = Some (str_nat n)"
    unfolding RE_FIXED_def by (rule one_arg_match)
  show ?thesis
    by (subst parse_ch_type.simps)
       (simp add: strip_render_type no_wrapper_leaves parse_leaf_def d f
          int_of_digits_str_nat del: render_type.simps)
qed

lemma parse_DateTime64: "parse_ch_type (render_type (DateTime64 n)) = Inr (DateTime64 n)"
proof -
  have d: "RE_DECIMAL (render_type (DateTime64 n)) = None"
    by (simp add: RE_DECIMAL_def lower_char_def upper_chars_def lower_chars_def)
  have x: "RE_FIXED (render_type (DateTime64 n)) = None"
    by (simp add: RE_FIXED_def one_arg_def lower_char_def upper_chars_def lower_chars_def)
  have "match_ci ''datetime64'' (render_type (DateTime64 n)) = Some (CHR ''('' # str_nat n @ '')'')"
    by (simp add: lower_char_def upper_chars_def lower_chars_def)
  then have f: "RE_DT64 (render_type (DateTime64 n)) = Some (str_nat n)"
    unfolding RE_DT64_def by (rule one_arg_match)
  show ?thesis
    by (subst parse_ch_type.simps)
       (simp add: strip_render_type no_wrapper_leaves parse_leaf_def d x f
          int_of_digits_str_nat del: render_type.simps)
qed

text \<open>
  C2. For every column type built from the leaf constructors and arbitrarily nested
  wrapper constructors, parsing the rendered text gives the type back:
  \<^verbatim>\<open>_parse_ch_type(_render_type(t)) == t\<close>, and nothing is raised.
\<close>

theorem parse_render_roundtrip: "parse_ch_type (render_type t) = Inr t"
proof (induction t)
  case (Nullable t)
  have "RE_WRAP1 (render_type (Nullable t)) = Some (''Nullable'', render_type t)"
    using RE_WRAP1_Nullable[of t] by simp
  from parse_wrapper[OF this Nullable] show ?case
    by (simp add: lower_keywords del: render_type.simps)
next
  case (Array t)
  have "RE_WRAP1 (render_type (Array t)) = Some (''Array'', render_type t)"
    using RE_WRAP1_Array[of t] by simp
  from parse_wrapper[OF this Array] show ?case by (simp add: lower_keywords del: render_type.simps)
next
  case (LowCardinality t)
  have "RE_WRAP1 (render_type (LowCardinality t)) = Some (''LowCardinality'', render_type t)"
    using RE_WRAP1_LowCardinality[of t] by simp
  from parse_wrapper[OF this LowCardinality] show ?case
    by (simp add: lower_keywords del: render_type.simps)
qed (simp_all only: parse_simple_leaves parse_Decimal parse_FixedString parse_DateTime64)

theorem parse_render_roundtrip_witness:
  "render_type (Nullable (Array (Decimal 10 2))) = ''Nullable(Array(Decimal(10,2)))'' \<and>
   parse_ch_type ''Nullable(Array(Decimal(10,2)))'' = Inr (Nullable (Array (Decimal 10 2)))"
proof -
  have r: "render_type (Nullable (Array (Decimal 10 2))) = ''Nullable(Array(Decimal(10,2)))''"
    by code_simp
  from parse_render_roundtrip[of "Nullable (Array (Decimal 10 2))"] show ?thesis
    by (simp only: r) 
qed

end
